theory Spec2Isabelle
  imports Complex_Main
begin

section \<open>Data model of \<open>IsingModel\<close>\<close>

text \<open>
  The class \<open>IsingModel\<close> of \<open>src/IsingModel.cpp\<close> and \<open>interface/IsingModel.h\<close>
  is embedded as a record holding its data members; every member function becomes a
  function on that record.

  Numbers: a C++ \<open>int\<close> is an Isabelle \<open>int\<close> (overflow, which is undefined in C++,
  is not modelled). A \<open>double\<close> is a \<open>real\<close>, and the rounding of doubles is not
  modelled: a theorem that compares a computed double with a bound leaves a margin
  between them. A double can also be infinite or NaN, which a real cannot, and the
  model follows the source up to there:
  \<^item> the source divides by the temperature and by the scale, and either can be 0
    (\<open>setTemperature(0)\<close> is stored; the scale is 0 until \<open>setup()\<close> computes one).
    Where the divisor is 0, or so small that the quotient is beyond the largest finite
    double, the quotient is infinite or NaN, and the model ends the call with the
    outcome \<open>NotFinite\<close> (\<open>fdiv\<close>; the source goes on computing with that value,
    and no theorem says what it then does);
  \<^item> where the source compares the result of \<open>exp\<close> with another number or
    divides by it, the model takes \<open>std_exp\<close>, which is 0 where the double
    underflows, and \<open>std::isinf\<close> holds of a value beyond the largest finite double
    (\<open>std_isinf\<close>). The weights that \<open>computePartitionFunction\<close> adds up are the
    real \<open>exp\<close>.

  An overflow of a sum, a product or a power is not modelled.

  The header that ships with the source is older than the \<open>.cpp\<close> file: the members
  \<open>mcMethod\<close>, \<open>currentEffH\<close>, \<open>mcInfo\<close>, \<open>hybridInfo\<close>, \<open>xmin\<close> and \<open>xmax\<close> are used
  by the \<open>.cpp\<close> file but not declared. They are fields of the record all the same;
  \<open>xmin\<close> and \<open>xmax\<close>, whose values the source never sets, stay parameters of every
  theorem.
\<close>

record spin =
  S :: int
  active :: bool
  coords :: "real list"

record IsingModel =
  spinArray :: "spin list"
  latticeDimensions :: "int list"
  latticeDepth :: int
  nThreads :: int
  nSpins :: int
  nLatticePoints :: int
  interactionSigma :: real
  hausdorffDim :: real
  hausdorffSlices :: real
  hausdorffScale :: real
  hausdorffMethod :: string
  mcMethod :: string
  nMCSteps :: int
  kbT :: real
  H :: real
  J :: real
  magnetization :: int
  hasBeenSetup :: bool
  currentEffH :: real
  mcInfo :: "real list"
  hybridInfo :: "real list"
  xmin :: real
  xmax :: real

text \<open>
  What ends a call without a result: \<open>std::vector::at\<close> out of range
  (\<open>OutOfRange\<close>), a vector constructed with a negative length (\<open>LengthError\<close>), an
  integer division by zero (\<open>DivisionByZero\<close>), and \<open>exit(EXIT_FAILURE)\<close> after the
  message that was printed (\<open>ExitFailure\<close>). None of them is caught anywhere in the
  source, so each one ends the process. \<open>NotFinite\<close> is not an exception of the
  source: it is the outcome of the model where a double of the source becomes infinite
  or NaN by a division, and the model does not follow the call further.
\<close>

datatype error = OutOfRange | LengthError | DivisionByZero | ExitFailure string | NotFinite

text \<open>
  The object built by the constructor, with the default member initialisers of the
  header. \<open>double hausdorffScale=1/3\<close> is an integer division and gives 0. The members
  the header does not declare are arguments.
\<close>

definition newIsingModel :: "string \<Rightarrow> real \<Rightarrow> real \<Rightarrow> IsingModel" where
  "newIsingModel mcmd xmn xmx =
     \<lparr> spinArray = [], latticeDimensions = [], latticeDepth = 1, nThreads = 1,
       nSpins = 0, nLatticePoints = 0, interactionSigma = 1, hausdorffDim = 1,
       hausdorffSlices = 2, hausdorffScale = 0, hausdorffMethod = ''SCALING'',
       mcMethod = mcmd, nMCSteps = 10000, kbT = 1, H = 1, J = 1, magnetization = 0,
       hasBeenSetup = False, currentEffH = 0, mcInfo = [], hybridInfo = [],
       xmin = xmn, xmax = xmx \<rparr>"

section \<open>Settings\<close>

definition setNumThreads :: "int \<Rightarrow> IsingModel \<Rightarrow> IsingModel" where
  "setNumThreads num m =
     (if nThreads m < 1 then m
      else m\<lparr>nThreads := num, hasBeenSetup := False\<rparr>)"

definition setNumMCSteps :: "int \<Rightarrow> IsingModel \<Rightarrow> IsingModel" where
  "setNumMCSteps num m =
     (if num < 1 then m
      else m\<lparr>nMCSteps := num, hasBeenSetup := False\<rparr>)"

definition setLatticeDepth :: "int \<Rightarrow> IsingModel \<Rightarrow> IsingModel" where
  "setLatticeDepth num m = m\<lparr>latticeDepth := num, hasBeenSetup := False\<rparr>"

definition setInteractionSigma :: "real \<Rightarrow> IsingModel \<Rightarrow> IsingModel" where
  "setInteractionSigma sig m = m\<lparr>interactionSigma := sig, hasBeenSetup := False\<rparr>"

definition setHausdorffDimension :: "real \<Rightarrow> IsingModel \<Rightarrow> IsingModel" where
  "setHausdorffDimension dimn m =
     (if dimn \<le> 0 then m
      else m\<lparr>hausdorffDim := dimn, hasBeenSetup := False\<rparr>)"

definition setHausdorffMethod :: "string \<Rightarrow> IsingModel \<Rightarrow> IsingModel" where
  "setHausdorffMethod hmtd m = m\<lparr>hausdorffMethod := hmtd, hasBeenSetup := False\<rparr>"

definition setMCMethod :: "string \<Rightarrow> IsingModel \<Rightarrow> IsingModel" where
  "setMCMethod mcmd m = m\<lparr>mcMethod := mcmd, hasBeenSetup := False\<rparr>"

definition setCouplingConsts :: "real \<Rightarrow> real \<Rightarrow> IsingModel \<Rightarrow> IsingModel" where
  "setCouplingConsts tH tJ m = m\<lparr>H := tH, J := tJ, hasBeenSetup := False\<rparr>"

definition setTemperature :: "real \<Rightarrow> IsingModel \<Rightarrow> IsingModel" where
  "setTemperature tkbT m =
     (if tkbT < 0 then m
      else m\<lparr>kbT := tkbT, hasBeenSetup := False\<rparr>)"

section \<open>Member functions as programs on the object\<close>

text \<open>
  A member function may read and write the object and may end by an exception or by
  \<open>exit\<close>. It is a function from the object before the call to the outcome (an error or
  a value) and the object after the call. A function that only reads the object returns
  it unchanged, and that is a theorem about it, not a property of its type.
\<close>

type_synonym 'a prog = "IsingModel \<Rightarrow> (error + 'a) \<times> IsingModel"

definition returnS :: "'a \<Rightarrow> 'a prog" where
  "returnS x = (\<lambda>m. (Inr x, m))"

definition throwS :: "error \<Rightarrow> 'a prog" where
  "throwS e = (\<lambda>m. (Inl e, m))"

definition bindS :: "'a prog \<Rightarrow> ('a \<Rightarrow> 'b prog) \<Rightarrow> 'b prog" where
  "bindS f g = (\<lambda>m. case f m of (Inl e, m') \<Rightarrow> (Inl e, m') | (Inr x, m') \<Rightarrow> g x m')"

definition getS :: "(IsingModel \<Rightarrow> 'a) \<Rightarrow> 'a prog" where
  "getS field = (\<lambda>m. (Inr (field m), m))"

definition modifyS :: "(IsingModel \<Rightarrow> IsingModel) \<Rightarrow> unit prog" where
  "modifyS upd = (\<lambda>m. (Inr (), upd m))"

text \<open>\<open>v.at(i)\<close>, read and written: out of range it throws \<open>std::out_of_range\<close>.\<close>

definition atS :: "'a list \<Rightarrow> int \<Rightarrow> 'a prog" where
  "atS v i = (if 0 \<le> i \<and> i < int (length v) then returnS (v ! nat i) else throwS OutOfRange)"

definition putAtS :: "'a list \<Rightarrow> int \<Rightarrow> 'a \<Rightarrow> 'a list prog" where
  "putAtS v i x =
     (if 0 \<le> i \<and> i < int (length v) then returnS (v[nat i := x]) else throwS OutOfRange)"

text \<open>\<open>a && b\<close> evaluates \<open>b\<close> only when \<open>a\<close> holds.\<close>

definition andS :: "bool prog \<Rightarrow> bool prog \<Rightarrow> bool prog" where
  "andS a b = bindS a (\<lambda>x. if x then b else returnS False)"

text \<open>
  A \<open>for\<close> loop over a range whose bounds the body does not change: the body is run
  for each index in turn on the variables the loop updates; \<open>continue\<close> is a body
  that returns them as they are.
\<close>

fun forS :: "'i list \<Rightarrow> ('i \<Rightarrow> 'a \<Rightarrow> 'a prog) \<Rightarrow> 'a \<Rightarrow> 'a prog" where
  "forS [] body acc = returnS acc"
| "forS (i # is) body acc = bindS (body i acc) (forS is body)"

section \<open>Doubles\<close>

text \<open>
  \<open>std::isinf\<close> of a double that holds the value \<open>x\<close>: the value is beyond the largest
  finite double, \<open>DBL_MAX\<close>.
\<close>

definition DBL_MAX :: real where
  "DBL_MAX = (2 - 1 / 2 ^ 52) * 2 ^ 1023"

definition std_isinf :: "real \<Rightarrow> bool" where
  "std_isinf x = (\<bar>x\<bar> > DBL_MAX)"

text \<open>
  \<open>exp\<close> of a double, where its result is compared or is a divisor: the smallest
  positive double is \<open>DBL_TRUE_MIN\<close>, and a value of at most half of it rounds to 0.
  Elsewhere the result is the real \<open>exp\<close> (not rounded); whether it is infinite is
  what \<open>std_isinf\<close> says of it.
\<close>

definition DBL_TRUE_MIN :: real where
  "DBL_TRUE_MIN = 1 / 2 ^ 1074"

definition std_exp :: "real \<Rightarrow> real" where
  "std_exp x = (if exp x \<le> DBL_TRUE_MIN / 2 then 0 else exp x)"

text \<open>
  The quotient \<open>a / b\<close> of two doubles where the divisor can be zero. With a zero
  divisor the double is infinite or NaN, and with a divisor so small that the quotient
  is beyond the largest finite double it is infinite; the call ends with \<open>NotFinite\<close>
  then.
\<close>

definition fdiv :: "real \<Rightarrow> real \<Rightarrow> real prog" where
  "fdiv a b = (if b = 0 \<or> std_isinf (a / b) then throwS NotFinite else returnS (a / b))"

section \<open>Observables and the energy model\<close>

definition getSpinArray :: "int list prog" where
  "getSpinArray =
     bindS (getS spinArray) (\<lambda>sa. returnS (map (\<lambda>it. if active it then S it else 0) sa))"

definition getMagnetization :: "int prog" where
  "getMagnetization =
     bindS (getS spinArray) (\<lambda>sa.
       let mag = sum_list (map (\<lambda>it. S it * (if active it then 1 else 0)) sa) in
       bindS (modifyS (\<lambda>m. m\<lparr>magnetization := mag\<rparr>)) (\<lambda>_. returnS mag))"

text \<open>
  \<open>getK()\<close> and \<open>geth()\<close> are not defined in the source file; the header defines
  \<open>K()\<close> as \<open>J/kbT\<close> and \<open>h()\<close> as \<open>H/kbT\<close>, and these are taken. The temperature
  can be 0: \<open>setTemperature(0)\<close> stores it.
\<close>

definition getK :: "real prog" where
  "getK = bindS (getS J) (\<lambda>j. bindS (getS kbT) (\<lambda>t. fdiv j t))"

definition geth :: "real prog" where
  "geth = bindS (getS H) (\<lambda>h. bindS (getS kbT) (\<lambda>t. fdiv h t))"

definition getDistanceSq :: "spin \<Rightarrow> spin \<Rightarrow> real prog" where
  "getDistanceSq s1 s2 =
     bindS (getS interactionSigma) (\<lambda>sig.
       if sig = 0 then returnS 1
       else
         bindS (forS [0 .. int (length (coords s1)) - 1]
                  (\<lambda>i distance.
                     bindS (atS (coords s1) i) (\<lambda>c1.
                     bindS (atS (coords s2) i) (\<lambda>c2.
                       returnS (distance + (c1 - c2)\<^sup>2))))
                  0)
           (\<lambda>distance. if distance = 0 then returnS 1 else returnS distance))"

text \<open>
  \<open>std::find(flips.begin(),flips.end(),i)!=flips.end() ? -1 : 1\<close>: the sign that the
  flip list gives to spin \<open>i\<close>.
\<close>

definition spinFlipOf :: "int list \<Rightarrow> int \<Rightarrow> int" where
  "spinFlipOf flips i = (if i \<in> set flips then -1 else 1)"

text \<open>
  The block that adds the coupling to the neighbour \<open>newIndex\<close>; the source has it
  twice, word for word, for the left and for the right neighbour. The base of \<open>pow\<close> is
  positive (a zero distance is replaced by 1), so \<open>pow\<close> is \<open>powr\<close>.
\<close>

definition pairTerm :: "int list \<Rightarrow> spin \<Rightarrow> int \<Rightarrow> int \<Rightarrow> real \<Rightarrow> real prog" where
  "pairTerm flips s spinFlip newIndex energy =
     bindS (getS spinArray) (\<lambda>sa.
     bindS (atS sa newIndex) (\<lambda>t.
       if active t then
         bindS getK (\<lambda>k.
         bindS (getDistanceSq s t) (\<lambda>d.
         bindS (getS interactionSigma) (\<lambda>sig.
           returnS (energy - k * (d powr (sig / 2)) * of_int (S s) * of_int (S t)
                               * of_int spinFlip * of_int (spinFlipOf flips newIndex) / 2))))
       else returnS energy))"

text \<open>The conditions of the two \<open>if\<close>s: is there a neighbour to the left, to the right.\<close>

definition hasLeft :: "int \<Rightarrow> spin \<Rightarrow> int \<Rightarrow> int \<Rightarrow> bool prog" where
  "hasLeft i s j indexPM =
     andS (returnS (i > indexPM - 1))
    (andS (bindS (atS (coords s) j) (\<lambda>c. bindS (getS xmin) (\<lambda>x. returnS (c \<noteq> x))))
          (bindS (getS spinArray) (\<lambda>sa. bindS (atS sa (i - indexPM)) (\<lambda>t.
           bindS (atS (coords t) j) (\<lambda>c. bindS (getS xmax) (\<lambda>x. returnS (c \<noteq> x)))))))"

definition hasRight :: "int \<Rightarrow> spin \<Rightarrow> int \<Rightarrow> int \<Rightarrow> bool prog" where
  "hasRight i s j indexPM =
     bindS (getS nSpins) (\<lambda>n.
       andS (returnS (i + indexPM < n))
      (andS (bindS (atS (coords s) j) (\<lambda>c. bindS (getS xmax) (\<lambda>x. returnS (c \<noteq> x))))
            (bindS (getS spinArray) (\<lambda>sa. bindS (atS sa (i + indexPM)) (\<lambda>t.
             bindS (atS (coords t) j) (\<lambda>c. bindS (getS xmin) (\<lambda>x. returnS (c \<noteq> x))))))))"

definition neighbourTerms ::
  "int list \<Rightarrow> int \<Rightarrow> spin \<Rightarrow> int \<Rightarrow> int \<Rightarrow> int \<Rightarrow> real \<Rightarrow> real prog" where
  "neighbourTerms flips i s spinFlip j indexPM energy =
     bindS (hasLeft i s j indexPM) (\<lambda>left.
     bindS (if left then pairTerm flips s spinFlip (i - indexPM) energy else returnS energy)
       (\<lambda>energy1.
     bindS (hasRight i s j indexPM) (\<lambda>right.
       if right then pairTerm flips s spinFlip (i + indexPM) energy1 else returnS energy1)))"

text \<open>The body of the loop over the axes \<open>j\<close>, with \<open>indexPM = pow(dims[j], p-1-j)\<close>.\<close>

definition axisTerm :: "int list \<Rightarrow> int \<Rightarrow> spin \<Rightarrow> int \<Rightarrow> int \<Rightarrow> real \<Rightarrow> real prog" where
  "axisTerm flips i s spinFlip j energy =
     bindS (getS latticeDimensions) (\<lambda>dims.
     bindS (atS dims j) (\<lambda>dj.
       neighbourTerms flips i s spinFlip j (dj ^ nat (int (length dims) - 1 - j)) energy))"

text \<open>The body of the loop over the spins \<open>i\<close>.\<close>

definition spinTerm :: "int list \<Rightarrow> int \<Rightarrow> real \<Rightarrow> real prog" where
  "spinTerm flips i energy =
     bindS (getS spinArray) (\<lambda>sa.
     bindS (atS sa i) (\<lambda>s.
       if \<not> active s then returnS energy
       else
         let spinFlip = spinFlipOf flips i in
         bindS geth (\<lambda>h.
         bindS (getS latticeDimensions) (\<lambda>dims.
           forS [0 .. int (length dims) - 1] (axisTerm flips i s spinFlip)
             (energy - h * of_int (S s) * of_int spinFlip)))))"

definition getEffHamiltonian :: "int list \<Rightarrow> real prog" where
  "getEffHamiltonian flips =
     bindS (getS nSpins) (\<lambda>n. forS [0 .. n - 1] (spinTerm flips) 0)"

text \<open>The overload \<open>getEffHamiltonian(const int flip)\<close>.\<close>

definition getEffHamiltonian1 :: "int \<Rightarrow> real prog" where
  "getEffHamiltonian1 flip = getEffHamiltonian [flip]"

subsection \<open>The energy evaluation leaves the object as it is\<close>

definition frame :: "'a prog \<Rightarrow> bool" where
  "frame f = (\<forall>m. snd (f m) = m)"

lemma frame_returnS: "frame (returnS x)"
  by (simp add: frame_def returnS_def)

lemma frame_throwS: "frame (throwS e)"
  by (simp add: frame_def throwS_def)

lemma frame_getS: "frame (getS f)"
  by (simp add: frame_def getS_def)

lemma frame_atS: "frame (atS v i)"
  by (simp add: atS_def frame_returnS frame_throwS)

lemma frame_bindS: "frame f \<Longrightarrow> (\<And>x. frame (g x)) \<Longrightarrow> frame (bindS f g)"
  unfolding frame_def bindS_def
  by (auto split: prod.splits sum.splits) (metis snd_conv)+

lemma frame_if: "frame f \<Longrightarrow> frame g \<Longrightarrow> frame (if c then f else g)"
  by simp

lemma frame_andS: "frame a \<Longrightarrow> frame b \<Longrightarrow> frame (andS a b)"
  by (simp add: andS_def frame_bindS frame_returnS)

lemma frame_forS: "(\<And>i a. frame (body i a)) \<Longrightarrow> frame (forS xs body acc)"
  by (induction xs arbitrary: acc) (simp_all add: frame_returnS frame_bindS)

lemmas frame_intros = frame_returnS frame_throwS frame_getS frame_atS frame_bindS frame_if
  frame_andS frame_forS

lemma frame_fdiv: "frame (fdiv a b)"
  by (simp add: fdiv_def frame_returnS frame_throwS)

lemma frame_getK: "frame getK"
  unfolding getK_def by (intro frame_intros frame_fdiv)

lemma frame_geth: "frame geth"
  unfolding geth_def by (intro frame_intros frame_fdiv)

lemma frame_getDistanceSq: "frame (getDistanceSq s1 s2)"
  unfolding getDistanceSq_def by (intro frame_intros)

lemma frame_pairTerm: "frame (pairTerm flips s sf ni e)"
  unfolding pairTerm_def by (intro frame_intros frame_getK frame_getDistanceSq)

lemma frame_neighbourTerms: "frame (neighbourTerms flips i s sf j ipm e)"
  unfolding neighbourTerms_def hasLeft_def hasRight_def
  by (intro frame_intros frame_pairTerm)

lemma frame_axisTerm: "frame (axisTerm flips i s sf j e)"
  unfolding axisTerm_def by (intro frame_intros frame_neighbourTerms)

lemma frame_spinTerm: "frame (spinTerm flips i e)"
  unfolding spinTerm_def Let_def by (intro frame_intros frame_geth frame_axisTerm)

lemma frame_getEffHamiltonian: "frame (getEffHamiltonian flips)"
  unfolding getEffHamiltonian_def by (intro frame_intros frame_spinTerm)

lemma getEffHamiltonian_state: "snd (getEffHamiltonian flips m) = m"
  using frame_getEffHamiltonian by (simp add: frame_def)

section \<open>The partition function\<close>

text \<open>
  \<open>computePartitionFunction(start, flips)\<close>. The object goes through the calls in
  the order of the source, so the recursion is nested in the object; that the energy
  evaluation returns the object unchanged is what makes it terminate.
\<close>

function computePartitionFunction :: "int \<Rightarrow> int list \<Rightarrow> real prog" where
  "computePartitionFunction start flips m =
     (if start \<ge> nSpins m then (Inr 0, m)
      else
        let newflips = flips @ [start] in
        case getEffHamiltonian newflips m of
          (Inl e, m1) \<Rightarrow> (Inl e, m1)
        | (Inr e1, m1) \<Rightarrow>
            (case computePartitionFunction (start + 1) newflips m1 of
               (Inl e, m2) \<Rightarrow> (Inl e, m2)
             | (Inr z1, m2) \<Rightarrow>
                 (case computePartitionFunction (start + 1) flips m2 of
                    (Inl e, m3) \<Rightarrow> (Inl e, m3)
                  | (Inr z2, m3) \<Rightarrow>
                      if start = 0 then
                        (case getEffHamiltonian [] m3 of
                           (Inl e, m4) \<Rightarrow> (Inl e, m4)
                         | (Inr e0, m4) \<Rightarrow> (Inr (0 + exp e1 + z1 + z2 + exp e0), m4))
                      else (Inr (0 + exp e1 + z1 + z2), m3))))"
  by pat_completeness auto

lemma computePartitionFunction_dom_state:
  "computePartitionFunction_dom (start, flips, m) \<Longrightarrow>
     snd (computePartitionFunction start flips m) = m"
proof (induction start flips m rule: computePartitionFunction.pinduct)
  case (1 start flips m)
  show ?case
  proof (cases "start \<ge> nSpins m")
    case True
    then show ?thesis using "1.hyps" by (simp add: computePartitionFunction.psimps)
  next
    case False
    obtain r1 m1 where g1: "getEffHamiltonian (flips @ [start]) m = (r1, m1)"
      by (cases "getEffHamiltonian (flips @ [start]) m")
    have m1: "m1 = m" using getEffHamiltonian_state [of "flips @ [start]" m] g1 by simp
    show ?thesis
    proof (cases r1)
      case (Inl e)
      then show ?thesis using "1.hyps" False g1 m1
        by (simp add: computePartitionFunction.psimps)
    next
      case (Inr e1)
      obtain r2 m2 where g2: "computePartitionFunction (start + 1) (flips @ [start]) m = (r2, m2)"
        by (cases "computePartitionFunction (start + 1) (flips @ [start]) m")
      have m2: "m2 = m"
        using "1.IH"(1) [OF False refl g1 [symmetric] Inr] g2 m1 by simp
      show ?thesis
      proof (cases r2)
        case (Inl e)
        then show ?thesis using "1.hyps" False g1 m1 Inr g2 m2
          by (simp add: computePartitionFunction.psimps)
      next
        case r2: (Inr z1)
        obtain r3 m3 where g3: "computePartitionFunction (start + 1) flips m = (r3, m3)"
          by (cases "computePartitionFunction (start + 1) flips m")
        have m3: "m3 = m"
          using "1.IH"(2) [OF False refl g1 [symmetric] Inr _ r2, of m2] g2 g3 m1 m2 by simp
        obtain r4 m4 where g4: "getEffHamiltonian [] m = (r4, m4)"
          by (cases "getEffHamiltonian [] m")
        have m4: "m4 = m" using getEffHamiltonian_state [of "[]" m] g4 by simp
        show ?thesis using "1.hyps" False g1 m1 Inr g2 m2 r2 g3 m3 g4 m4
          by (simp add: computePartitionFunction.psimps split: sum.splits)
      qed
    qed
  qed
qed

termination computePartitionFunction
proof (relation "measure (\<lambda>(start, flips, m). nat (nSpins m - start))", goal_cases)
  case 1
  show ?case by simp
next
  case (2 start flips m x xa y b)
  have "y = m"
    using getEffHamiltonian_state [of x m] 2(3) by (metis snd_conv)
  then show ?case using 2 by simp
next
  case (3 start flips m x xa y b xaa ya ba)
  have "y = m"
    using getEffHamiltonian_state [of x m] 3(3) by (metis snd_conv)
  moreover have "ya = y"
    using computePartitionFunction_dom_state [OF 3(7)] 3(5) by (metis snd_conv)
  ultimately show ?case using 3 by simp
qed

declare computePartitionFunction.simps [simp del]

section \<open>The Monte Carlo engine\<close>

text \<open>
  \<open>TRandom3\<close> is a class of the ROOT library, not of this repository. A generator is
  the stream of the values its \<open>Rndm()\<close> will return (each in the open interval from 0
  to 1, for ROOT); \<open>Uniform()\<close> takes the next one, \<open>Integer(imax)\<close> is ROOT's
  \<open>(UInt_t)(imax*Rndm())\<close>. Every theorem below holds for every stream.
\<close>

type_synonym TRandom3 = "nat \<Rightarrow> real"

definition Uniform :: "TRandom3 \<Rightarrow> real \<times> TRandom3" where
  "Uniform rNG = (rNG 0, \<lambda>n. rNG (Suc n))"

definition Integer :: "int \<Rightarrow> TRandom3 \<Rightarrow> int \<times> TRandom3" where
  "Integer imax rNG = (\<lfloor>real_of_int imax * rNG 0\<rfloor>, \<lambda>n. rNG (Suc n))"

text \<open>The division of two C++ \<open>int\<close>s, which truncates towards zero.\<close>

definition cdiv :: "int \<Rightarrow> int \<Rightarrow> int" where
  "cdiv a b = sgn a * sgn b * (\<bar>a\<bar> div \<bar>b\<bar>)"

text \<open>\<open>spinArray.at(i).S=-spinArray.at(i).S\<close>\<close>

definition flipSpin :: "int \<Rightarrow> unit prog" where
  "flipSpin i =
     bindS (getS spinArray) (\<lambda>sa.
     bindS (atS sa i) (\<lambda>s.
       modifyS (\<lambda>m. m\<lparr>spinArray := (spinArray m)[nat i := s\<lparr>S := - S s\<rparr>]\<rparr>)))"

text \<open>\<open>mcInfo.push_back(abs(tE-currentEffH)); currentEffH=tE;\<close>\<close>

definition recordFlip :: "real \<Rightarrow> unit prog" where
  "recordFlip tE =
     bindS (modifyS (\<lambda>m. m\<lparr>mcInfo := mcInfo m @ [\<bar>tE - currentEffH m\<bar>]\<rparr>)) (\<lambda>_.
     modifyS (\<lambda>m. m\<lparr>currentEffH := tE\<rparr>))"

text \<open>
  The body of the sweep of \<open>metropolisStep\<close> for the spin \<open>i\<close>. The generator is
  asked for a number only in the \<open>else\<close> branch.
\<close>

definition metropolisSpin :: "int \<Rightarrow> TRandom3 \<Rightarrow> TRandom3 prog" where
  "metropolisSpin i rNG =
     bindS (getEffHamiltonian1 i) (\<lambda>tE.
     bindS (getS currentEffH) (\<lambda>cur.
       let (spinFlip, rNG') =
             (if tE - cur < 0 then (True, rNG)
              else let (u, r) = Uniform rNG in (u < std_exp (cur - tE), r))
       in if spinFlip then
            bindS (flipSpin i) (\<lambda>_. bindS (recordFlip tE) (\<lambda>_. returnS rNG'))
          else returnS rNG'))"

definition metropolisStep :: "TRandom3 \<Rightarrow> (real \<times> TRandom3) prog" where
  "metropolisStep rNG =
     bindS (getS nSpins) (\<lambda>n.
     bindS (forS [0 .. n - 1] metropolisSpin rNG) (\<lambda>rNG'.
     bindS (getS currentEffH) (\<lambda>e. returnS (e, rNG'))))"

text \<open>
  The body of the sweep of \<open>heatBathStep\<close> for the spin \<open>i\<close>. The source tests
  \<open>acceptance\<close> twice: is it infinite (an overflow of \<open>exp\<close>), is it above 0 (it is
  not after an underflow, and then no number is drawn and the spin stays). The ratio
  is the real quotient: the double is that quotient rounded, and it is exactly 1 when
  the smaller exponential is lost in the sum (from a difference of the energies of
  about 18.7 on). The real quotient is then above every double below 1, so a number
  that \<open>Uniform()\<close> returns is below the one and the other. The theorems about this
  function compare a number with the ratio only where the two differ by more than the
  rounding.
\<close>

definition heatBathSpin :: "int \<Rightarrow> TRandom3 \<Rightarrow> TRandom3 prog" where
  "heatBathSpin i rNG =
     bindS (getEffHamiltonian1 i) (\<lambda>tE.
     bindS (getS currentEffH) (\<lambda>cur.
       let acceptance = std_exp (cur - tE);
           (spinFlip, rNG') =
             (if std_isinf acceptance then (True, rNG)
              else if acceptance > 0 then
                let acceptance' = acceptance / (std_exp (tE - cur) + std_exp (cur - tE));
                    (u, r) = Uniform rNG
                in (u < acceptance', r)
              else (False, rNG))
       in if spinFlip then
            bindS (flipSpin i) (\<lambda>_. bindS (recordFlip tE) (\<lambda>_. returnS rNG'))
          else returnS rNG'))"

definition heatBathStep :: "TRandom3 \<Rightarrow> (real \<times> TRandom3) prog" where
  "heatBathStep rNG =
     bindS (getS nSpins) (\<lambda>n.
     bindS (forS [0 .. n - 1] heatBathSpin rNG) (\<lambda>rNG'.
     bindS (getS currentEffH) (\<lambda>e. returnS (e, rNG'))))"

definition hybridStep :: "real \<Rightarrow> int list \<Rightarrow> unit prog" where
  "hybridStep rng spinFlips =
     bindS (getEffHamiltonian spinFlips) (\<lambda>tE.
     bindS (getS currentEffH) (\<lambda>cur.
       let spinFlip = (if tE - cur < 0 then True else rng < std_exp (cur - tE))
       in if spinFlip then
            bindS (forS [0 .. int (length spinFlips) - 1]
                     (\<lambda>i _. bindS (atS spinFlips i) flipSpin) ()) (\<lambda>_.
            recordFlip tE)
          else returnS ()))"

text \<open>
  The adaptation of the group size at the head of a Hybrid step (from
  \<open>if(nSpinsPerThread < 1)\<close> to the end of the \<open>else if\<close>): the new value of
  \<open>nSpinsPerThread\<close>, from its old value, the sum of the energy changes of the last
  step, the sum of the step before, the stored magnetization and the number of spins.
\<close>

definition adaptSpinsPerThread :: "int \<Rightarrow> real \<Rightarrow> real \<Rightarrow> int \<Rightarrow> int \<Rightarrow> int" where
  "adaptSpinsPerThread nSpinsPerThread newAvgAbsDeltaE avgAbsDeltaE mag n =
     (let k = (if nSpinsPerThread < 1 then 1 else nSpinsPerThread) in
      if k > 1 \<and> (newAvgAbsDeltaE > avgAbsDeltaE * 2
                  \<or> newAvgAbsDeltaE \<le> avgAbsDeltaE
                  \<or> newAvgAbsDeltaE = 0)
      then max (cdiv k 2) 1
      else if k \<ge> 1 \<and> \<bar>mag\<bar> < cdiv n 2 then max (k * 2) 1
      else k)"

text \<open>\<open>popVector.erase(popVector.begin()+index)\<close>\<close>

definition erase :: "'a list \<Rightarrow> int \<Rightarrow> 'a list" where
  "erase v i = take (nat i) v @ drop (Suc (nat i)) v"

text \<open>
  One pass of the body of \<open>while(popVectorSize>0)\<close> up to the call of \<open>hybridStep\<close>:
  the group \<open>spinFlips\<close> and what is left of the pool. \<open>std::vector<int>
  spinFlips(nSpinsPerThread)\<close> is a vector of \<open>nSpinsPerThread\<close> zeros (a negative
  length does not construct), and \<open>push_back\<close> appends to it.
\<close>

definition drawGroup ::
  "int \<Rightarrow> int list \<Rightarrow> int \<Rightarrow> TRandom3 \<Rightarrow> (int list \<times> int list \<times> int \<times> TRandom3) prog" where
  "drawGroup nSpinsPerThread popVector popVectorSize rNG =
     (if nSpinsPerThread < 0 then throwS LengthError
      else
        let spinFlips = replicate (nat nSpinsPerThread) 0 in
        if nSpinsPerThread > int (length popVector) then
          returnS (popVector, [], 0, rNG)
        else
          forS [0 .. nSpinsPerThread - 1]
            (\<lambda>j (spinFlips, popVector, popVectorSize, rNG).
               let (index, rNG') = Integer popVectorSize rNG in
               bindS (atS popVector index) (\<lambda>v.
                 returnS (spinFlips @ [v], erase popVector index, popVectorSize - 1, rNG')))
            (spinFlips, popVector, popVectorSize, rNG))"

text \<open>
  The loop \<open>while(popVectorSize>0)\<close>. With a group size of 0 it would never end, so
  it is a partial function: \<open>None\<close> is a loop that does not return. The argument
  \<open>groups\<close> is not a variable of the source: it collects the groups given to
  \<open>hybridStep\<close>, in order, so that theorems can speak about them.
\<close>

partial_function (option) hybridLoop ::
  "int \<Rightarrow> int list \<Rightarrow> int \<Rightarrow> TRandom3 \<Rightarrow> int list list \<Rightarrow> IsingModel
     \<Rightarrow> ((error + TRandom3 \<times> int list list) \<times> IsingModel) option" where
  "hybridLoop nSpinsPerThread popVector popVectorSize rNG groups m =
     (if popVectorSize > 0 then
        (case drawGroup nSpinsPerThread popVector popVectorSize rNG m of
           (Inl e, m1) \<Rightarrow> Some (Inl e, m1)
         | (Inr (spinFlips, popVector', popVectorSize', rNG1), m1) \<Rightarrow>
             (case Uniform rNG1 of (u, rNG2) \<Rightarrow>
                (case hybridStep u spinFlips m1 of
                   (Inl e, m2) \<Rightarrow> Some (Inl e, m2)
                 | (Inr _, m2) \<Rightarrow>
                     hybridLoop nSpinsPerThread popVector' popVectorSize' rNG2
                       (groups @ [spinFlips]) m2)))
      else Some (Inr (rNG, groups), m))"

text \<open>
  One pass of the loop over the Monte Carlo steps. The methods are compared as
  strings (the source compares the pointers). The result carries the new values of
  the variables of the loop and the groups of the step.
\<close>

definition mcStep ::
  "real \<Rightarrow> int \<Rightarrow> TRandom3 \<Rightarrow> IsingModel
     \<Rightarrow> ((error + real \<times> int \<times> TRandom3 \<times> int list list) \<times> IsingModel) option" where
  "mcStep avgAbsDeltaE nSpinsPerThread rNG m =
     (let newAvgAbsDeltaE = sum_list (mcInfo m);
          m0 = m\<lparr>mcInfo := []\<rparr>;
          after = (\<lambda>k rNG' groups m1.
             Some (Inr (newAvgAbsDeltaE, k, rNG', groups),
                   if avgAbsDeltaE \<ge> 0 then m1\<lparr>hybridInfo := hybridInfo m1 @ [avgAbsDeltaE]\<rparr>
                   else m1))
      in
      if mcMethod m0 = ''METROPOLIS'' then
        (case metropolisStep rNG m0 of
           (Inl e, m1) \<Rightarrow> Some (Inl e, m1)
         | (Inr (_, rNG'), m1) \<Rightarrow> after nSpinsPerThread rNG' [] m1)
      else if mcMethod m0 = ''HEATBATH'' then
        (case heatBathStep rNG m0 of
           (Inl e, m1) \<Rightarrow> Some (Inl e, m1)
         | (Inr (_, rNG'), m1) \<Rightarrow> after nSpinsPerThread rNG' [] m1)
      else if mcMethod m0 = ''HYBRID'' then
        (let popVectorSize = nSpins m0;
             popVector = [0 .. nSpins m0 - 1];
             k = adaptSpinsPerThread nSpinsPerThread newAvgAbsDeltaE avgAbsDeltaE
                   (magnetization m0) (nSpins m0)
         in case hybridLoop k popVector popVectorSize rNG [] m0 of
              None \<Rightarrow> None
            | Some (Inl e, m1) \<Rightarrow> Some (Inl e, m1)
            | Some (Inr (rNG', groups), m1) \<Rightarrow> after k rNG' groups m1)
      else after nSpinsPerThread rNG [] m0)"

fun mcLoop ::
  "nat \<Rightarrow> real \<Rightarrow> int \<Rightarrow> TRandom3 \<Rightarrow> int list list list \<Rightarrow> IsingModel
     \<Rightarrow> ((error + TRandom3 \<times> int list list list) \<times> IsingModel) option" where
  "mcLoop 0 avgAbsDeltaE nSpinsPerThread rNG trace m = Some (Inr (rNG, trace), m)"
| "mcLoop (Suc steps) avgAbsDeltaE nSpinsPerThread rNG trace m =
     (case mcStep avgAbsDeltaE nSpinsPerThread rNG m of
        None \<Rightarrow> None
      | Some (Inl e, m1) \<Rightarrow> Some (Inl e, m1)
      | Some (Inr (avg', k', rNG', groups), m1) \<Rightarrow>
          mcLoop steps avg' k' rNG' (trace @ [groups]) m1)"

text \<open>
  \<open>runMonteCarlo()\<close>, given the stream of the generator it creates. The value is the
  generator at the end and, for each step, the groups given to \<open>hybridStep\<close>.
\<close>

definition runMonteCarlo ::
  "TRandom3 \<Rightarrow> IsingModel
     \<Rightarrow> ((error + TRandom3 \<times> int list list list) \<times> IsingModel) option" where
  "runMonteCarlo rNG m =
     (if \<not> hasBeenSetup m then
        Some (Inl (ExitFailure ''ERROR: Object has not been setup!''), m)
      else
        case getEffHamiltonian [] m of
          (Inl e, m1) \<Rightarrow> Some (Inl e, m1)
        | (Inr e0, m1) \<Rightarrow>
            (let m2 = m1\<lparr>currentEffH := e0\<rparr> in
             if nThreads m2 = 0 then Some (Inl DivisionByZero, m2)
             else mcLoop (nat (nMCSteps m2)) (-1) (cdiv (nSpins m2) (nThreads m2)) rNG [] m2))"

definition reset :: "IsingModel \<Rightarrow> IsingModel" where
  "reset m = m\<lparr>spinArray := [], hybridInfo := [], mcInfo := [], latticeDimensions := [],
              magnetization := 0, currentEffH := 0, nSpins := 0, hasBeenSetup := False\<rparr>"

section \<open>The geometry builder\<close>

text \<open>The conversion of a double to an \<open>int\<close> truncates towards zero.\<close>

definition double_to_int :: "real \<Rightarrow> int" where
  "double_to_int x = (if x \<ge> 0 then \<lfloor>x\<rfloor> else \<lceil>x\<rceil>)"

text \<open>
  \<open>nextPermutation(tvN, max)\<close>: the loop over \<open>i\<close>, from the index \<open>i\<close> on. All its
  \<open>at\<close> are in range.
\<close>

function nextPermutationFrom :: "nat \<Rightarrow> int list \<Rightarrow> int \<Rightarrow> int list" where
  "nextPermutationFrom i tvN mx =
     (if i < length tvN then
        if i = length tvN - 1 then
          (if tvN ! i = mx - 1 then tvN[0 := -1] else tvN[i := tvN ! i + 1])
        else if tvN ! i = mx - 1 then nextPermutationFrom (i + 1) (tvN[i := 0]) mx
        else tvN[i := tvN ! i + 1]
      else tvN)"
  by pat_completeness auto
termination
  by (relation "measure (\<lambda>(i, tvN, mx). length tvN - i)") auto

declare nextPermutationFrom.simps [simp del]

definition nextPermutation :: "int list \<Rightarrow> int \<Rightarrow> int list" where
  "nextPermutation tvN mx = nextPermutationFrom 0 tvN mx"

text \<open>
  Modelled from the spec: the comparison \<open>operator>\<close> of two spins, which
  \<open>QSPartition\<close> uses and the source file does not define. The spec has the array
  sorted by coordinate, lexicographic over the axes.
\<close>

fun coordsGreater :: "real list \<Rightarrow> real list \<Rightarrow> bool" where
  "coordsGreater [] bs = False"
| "coordsGreater (a # as) [] = True"
| "coordsGreater (a # as) (b # bs) = (a > b \<or> (a = b \<and> coordsGreater as bs))"

definition spinGreater :: "spin \<Rightarrow> spin \<Rightarrow> bool" where
  "spinGreater a b = coordsGreater (coords a) (coords b)"

text \<open>
  \<open>swap(&vec[a], &vec[b])\<close>. The subscripts of \<open>QSPartition\<close> are unchecked; they
  lie between \<open>low\<close> and \<open>high\<close>, and \<open>addSpins\<close> calls with \<open>0\<close> and \<open>nSpins-1\<close>.
\<close>

definition swap :: "spin list \<Rightarrow> int \<Rightarrow> int \<Rightarrow> spin list" where
  "swap vec a b = (vec[nat a := vec ! nat b])[nat b := vec ! nat a]"

definition QSPartition :: "spin list \<Rightarrow> int \<Rightarrow> int \<Rightarrow> spin list \<times> int" where
  "QSPartition vec low high =
     (let pivot = vec ! nat high;
          (vec1, i) = fold (\<lambda>j (v, i).
                              if \<not> spinGreater (v ! nat j) pivot then (swap v (i + 1) j, i + 1)
                              else (v, i))
                        [low .. high - 1] (vec, low - 1)
      in (swap vec1 (i + 1) high, i + 1))"

text \<open>
  \<open>QuickSort\<close>: the \<open>while\<close> loop goes on with the half it did not recurse into, which
  is the second call here. (\<open>pidx\<close> is the source's \<open>pi\<close>.)
\<close>

partial_function (option) QuickSort :: "spin list \<Rightarrow> int \<Rightarrow> int \<Rightarrow> spin list option" where
  "QuickSort vec left right =
     (if left < right then
        (case QSPartition vec left right of
           (vec1, pidx) \<Rightarrow>
             if pidx - left < right - pidx then
               Option.bind (QuickSort vec1 left (pidx - 1))
                 (\<lambda>vec2. QuickSort vec2 (pidx + 1) right)
             else
               Option.bind (QuickSort vec1 (pidx + 1) right)
                 (\<lambda>vec2. QuickSort vec2 left (pidx - 1)))
      else Some vec)"

text \<open>
  The lower corner \<open>cPos\<close> of the hypercube that the digits \<open>vN\<close> select. The
  factor \<open>(1 + (1/hausdorffScale-hausdorffSlices)/(hausdorffSlices-1))\<close> divides by
  the scale and by the number of slices less one. The scale can be 0 (the default,
  kept when the method is not \<open>SCALING\<close>, or an underflow in \<open>setup()\<close>): the
  product is then \<open>inf * 0\<close>, which is NaN.
\<close>

definition cellPosition :: "int \<Rightarrow> real list \<Rightarrow> real \<Rightarrow> int list \<Rightarrow> real list prog" where
  "cellPosition depth x0 delta vN =
     bindS (getS latticeDimensions) (\<lambda>dims.
     bindS (getS hausdorffScale) (\<lambda>scale.
     bindS (getS hausdorffSlices) (\<lambda>slices.
       forS [0 .. int (length dims) - 1]
         (\<lambda>iDim cPos.
            bindS (atS cPos iDim) (\<lambda>c.
            bindS (atS x0 iDim) (\<lambda>x.
            bindS (putAtS cPos iDim (c + x)) (\<lambda>cPos1.
              forS [0 .. depth - 1]
                (\<lambda>iDepth cPos2.
                   bindS (atS vN (iDim * depth + iDepth)) (\<lambda>depthVal.
                     let depthScale = scale powi (depth - iDepth) * delta in
                     bindS (fdiv 1 scale) (\<lambda>q1.
                     bindS (fdiv (q1 - slices) (slices - 1)) (\<lambda>q2.
                     bindS (atS cPos2 iDim) (\<lambda>c2.
                       putAtS cPos2 iDim (c2 + (1 + q2) * depthScale * of_int depthVal))))))
                cPos1))))
         (replicate (length dims) 0))))"

text \<open>The body of the loop over the corners: one spin is built and appended.\<close>

definition placeSpin :: "int \<Rightarrow> real \<Rightarrow> real list \<Rightarrow> int list \<Rightarrow> unit prog" where
  "placeSpin depth delta cPos cubePoints =
     bindS (getS latticeDimensions) (\<lambda>dims.
     bindS (getS hausdorffScale) (\<lambda>scale.
     bindS (forS [0 .. int (length cubePoints) - 1]
              (\<lambda>index cs.
                 bindS (atS cubePoints index) (\<lambda>cp.
                 bindS (atS cPos index) (\<lambda>c.
                   putAtS cs index (of_int cp * scale powi depth * delta + c))))
              (replicate (length dims) 0)) (\<lambda>cs.
       modifyS (\<lambda>m. m\<lparr>spinArray := spinArray m @ [\<lparr>S = 1, active = True, coords = cs\<rparr>],
                       nSpins := nSpins m + 1\<rparr>))))"

text \<open>
  The two loops of \<open>addSpins\<close>, each of the form \<open>for(fill with 0; v.at(0) != -1;
  nextPermutation(v, max))\<close>. They end when the counter runs over, which digits out of
  range never do, so they are partial functions.
\<close>

partial_function (option) cubeLoop ::
  "int \<Rightarrow> real \<Rightarrow> real list \<Rightarrow> int list \<Rightarrow> IsingModel
     \<Rightarrow> ((error + unit) \<times> IsingModel) option" where
  "cubeLoop depth delta cPos cubePoints m =
     (case atS cubePoints 0 m of
        (Inl e, m1) \<Rightarrow> Some (Inl e, m1)
      | (Inr c0, m1) \<Rightarrow>
          if c0 \<noteq> -1 then
            (case placeSpin depth delta cPos cubePoints m1 of
               (Inl e, m2) \<Rightarrow> Some (Inl e, m2)
             | (Inr _, m2) \<Rightarrow> cubeLoop depth delta cPos (nextPermutation cubePoints 2) m2)
          else Some (Inr (), m1))"

partial_function (option) cellLoop ::
  "int \<Rightarrow> real list \<Rightarrow> real \<Rightarrow> int list \<Rightarrow> IsingModel
     \<Rightarrow> ((error + unit) \<times> IsingModel) option" where
  "cellLoop depth x0 delta vN m =
     (case atS vN 0 m of
        (Inl e, m1) \<Rightarrow> Some (Inl e, m1)
      | (Inr v0, m1) \<Rightarrow>
          if v0 \<noteq> -1 then
            (case cellPosition depth x0 delta vN m1 of
               (Inl e, m2) \<Rightarrow> Some (Inl e, m2)
             | (Inr cPos, m2) \<Rightarrow>
                 Option.bind
                   (cubeLoop depth delta cPos (replicate (length (latticeDimensions m2)) 0) m2)
                   (\<lambda>r. case r of
                      (Inl e, m3) \<Rightarrow> Some (Inl e, m3)
                    | (Inr _, m3) \<Rightarrow>
                        cellLoop depth x0 delta
                          (nextPermutation vN (double_to_int (hausdorffSlices m3))) m3))
          else Some (Inr (), m1))"

text \<open>
  \<open>addSpins(depth, x0, x1)\<close>. The vector \<open>vN\<close> has \<open>latticeDimensions.size()*depth\<close>
  elements; a negative product does not construct.
\<close>

definition addSpins ::
  "int \<Rightarrow> real list \<Rightarrow> real list \<Rightarrow> IsingModel \<Rightarrow> ((error + unit) \<times> IsingModel) option" where
  "addSpins depth x0 x1 m =
     (case bindS (atS x1 0) (\<lambda>b. bindS (atS x0 0) (\<lambda>a. returnS \<bar>b - a\<bar>)) m of
        (Inl e, m1) \<Rightarrow> Some (Inl e, m1)
      | (Inr delta, m1) \<Rightarrow>
          if int (length (latticeDimensions m1)) * depth < 0 then Some (Inl LengthError, m1)
          else
            Option.bind
              (cellLoop depth x0 delta
                 (replicate (nat (int (length (latticeDimensions m1)) * depth)) 0) m1)
              (\<lambda>r. case r of
                 (Inl e, m2) \<Rightarrow> Some (Inl e, m2)
               | (Inr _, m2) \<Rightarrow>
                   Option.bind (QuickSort (spinArray m2) 0 (nSpins m2 - 1))
                     (\<lambda>vec. Some (Inr (), m2\<lparr>spinArray := vec\<rparr>))))"

text \<open>
  \<open>setup()\<close>. (The name \<open>setup\<close> is taken in Isabelle.) The scaling method is compared
  as a string. The scale is a divisor in \<open>addSpins\<close>, so its \<open>exp\<close> is \<open>std_exp\<close>: for
  a small dimension it underflows to 0. The dimension is positive and the number of
  slices is 2 in every object that the constructor and the setters make, so the
  divisions by them are divisions of reals.
\<close>

definition setupModel :: "IsingModel \<Rightarrow> ((error + unit) \<times> IsingModel) option" where
  "setupModel m =
     (let m1 = (if hausdorffMethod m = ''SCALING''
                then m\<lparr>hausdorffScale :=
                         std_exp (- of_int \<lceil>hausdorffDim m\<rceil> * ln (hausdorffSlices m)
                                  / hausdorffDim m)\<rparr>
                else m)
      in
      if hausdorffScale m1 > 1 / hausdorffSlices m1 then
        Some (Inl (ExitFailure ''ERROR: Invalid Hausdorff scaling''), m1)
      else
        let m2 = m1\<lparr>latticeDimensions :=
                      latticeDimensions m1 @
                      replicate (nat \<lceil>hausdorffDim m1\<rceil>)
                        (double_to_int (2 * hausdorffSlices m1 powi latticeDepth m1))\<rparr>;
            x0 = replicate (length (latticeDimensions m2)) 0;
            x1 = replicate (length (latticeDimensions m2)) 1
        in Option.bind (addSpins (latticeDepth m2) x0 x1 m2)
             (\<lambda>r. case r of
                (Inl e, m3) \<Rightarrow> Some (Inl e, m3)
              | (Inr _, m3) \<Rightarrow> Some (Inr (), m3\<lparr>hasBeenSetup := True\<rparr>)))"

section \<open>Notions used in the statements\<close>

text \<open>
  What \<open>setup()\<close> establishes on a new or reset object (lemma \<open>setupModel_wf\<close>
  below): \<open>nSpins\<close> is the length of the spin array, every spin has one coordinate
  for each lattice axis, and every lattice dimension is positive. The set-up flag is
  not part of it. (A second \<open>setup()\<close> without \<open>reset()\<close> appends to
  \<open>latticeDimensions\<close>, and the spins of the first one then have too few
  coordinates.)
\<close>

definition wf_model :: "IsingModel \<Rightarrow> bool" where
  "wf_model m =
     (nSpins m = int (length (spinArray m)) \<and>
      list_all (\<lambda>s. length (coords s) = length (latticeDimensions m)) (spinArray m) \<and>
      list_all (\<lambda>d. 0 < d) (latticeDimensions m))"

text \<open>
  The reduced couplings \<open>h() = H/kbT\<close> and \<open>K() = J/kbT\<close> are finite doubles: the
  temperature is not 0, and neither quotient is beyond the largest finite double.
\<close>

definition finite_couplings :: "IsingModel \<Rightarrow> bool" where
  "finite_couplings m =
     (kbT m \<noteq> 0 \<and> \<not> std_isinf (H m / kbT m) \<and> \<not> std_isinf (J m / kbT m))"

text \<open>
  The effective Hamiltonian of the configuration in which the spins of the set \<open>F\<close>
  are flipped: the value that \<open>getEffHamiltonian\<close> returns for a list of the elements
  of \<open>F\<close>.
\<close>

definition effectiveHamiltonian :: "IsingModel \<Rightarrow> int set \<Rightarrow> real" where
  "effectiveHamiltonian m F = projr (fst (getEffHamiltonian (sorted_list_of_set F) m))"

text \<open>A program that, on the object \<open>m\<close>, returns a value and leaves \<open>m\<close> as it is.\<close>

definition succeeds :: "'a prog \<Rightarrow> IsingModel \<Rightarrow> bool" where
  "succeeds f m = (\<exists>x. f m = (Inr x, m))"

text \<open>A program whose outcome does not depend on the set-up flag.\<close>

definition flagfree :: "'a prog \<Rightarrow> bool" where
  "flagfree f =
     (\<forall>m b. f (m\<lparr>hasBeenSetup := b\<rparr>) = (fst (f m), (snd (f m))\<lparr>hasBeenSetup := b\<rparr>))"

text \<open>
  The object after an accepted flip of the spin \<open>i\<close> with candidate energy \<open>tE\<close>: the
  spin is negated, the energy change is recorded and the cached energy is \<open>tE\<close>.
\<close>

definition flippedAt :: "int \<Rightarrow> real \<Rightarrow> IsingModel \<Rightarrow> IsingModel" where
  "flippedAt i tE m =
     m\<lparr>spinArray := (spinArray m)[nat i := (spinArray m ! nat i)\<lparr>S := - S (spinArray m ! nat i)\<rparr>],
       mcInfo := mcInfo m @ [\<bar>tE - currentEffH m\<bar>],
       currentEffH := tE\<rparr>"

text \<open>
  \<open>m'\<close> is \<open>m\<close> with spins appended, each active and with one coordinate for each
  lattice axis, and with \<open>nSpins\<close> counted up accordingly; nothing else differs.
\<close>

definition extends :: "IsingModel \<Rightarrow> IsingModel \<Rightarrow> bool" where
  "extends m m' =
     (\<exists>new. m' = m\<lparr>spinArray := spinArray m @ new, nSpins := nSpins m + int (length new)\<rparr> \<and>
            list_all (\<lambda>s. length (coords s) = length (latticeDimensions m) \<and> active s) new)"

subsection \<open>Objects for the examples\<close>

text \<open>
  Two spins at the ends of the unit interval, with \<open>H = 0\<close>, \<open>J = 1\<close>, \<open>sigma = 2\<close> and
  \<open>kbT = 1\<close> (the second end-to-end scenario of the specification).
\<close>

definition twoSpins :: IsingModel where
  "twoSpins = (newIsingModel ''METROPOLIS'' 0 1)
     \<lparr> spinArray := [\<lparr>S = 1, active = True, coords = [0]\<rparr>,
                     \<lparr>S = 1, active = True, coords = [1]\<rparr>],
       latticeDimensions := [2], nSpins := 2, interactionSigma := 2, H := 0,
       hasBeenSetup := True \<rparr>"

text \<open>What \<open>setup()\<close> makes of a new object (dimension 1, depth 1).\<close>

definition fourSpins :: IsingModel where
  "fourSpins = (newIsingModel ''METROPOLIS'' 0 1)
     \<lparr> spinArray := [\<lparr>S = 1, active = True, coords = [0]\<rparr>,
                     \<lparr>S = 1, active = True, coords = [1 / 2]\<rparr>,
                     \<lparr>S = 1, active = True, coords = [1 / 2]\<rparr>,
                     \<lparr>S = 1, active = True, coords = [1]\<rparr>],
       latticeDimensions := [4], nSpins := 4, hausdorffScale := 1 / 2, hasBeenSetup := True \<rparr>"

text \<open>
  What a second \<open>setup()\<close> makes of that object after \<open>setTemperature(2)\<close> has
  cleared its flag: \<open>setup()\<close> clears neither the lattice dimensions nor the spin
  array, so there are two axes now, and sixteen new spins with two coordinates are
  sorted in between the four old ones, which have one.
\<close>

definition twiceSetUp :: IsingModel where
  "twiceSetUp = (newIsingModel ''METROPOLIS'' 0 1)
     \<lparr> spinArray := map (\<lambda>cs. \<lparr>S = 1, active = True, coords = cs\<rparr>)
         [[0], [0, 0], [0, 1 / 2], [0, 1 / 2], [0, 1],
          [1 / 2], [1 / 2], [1 / 2, 0], [1 / 2, 0],
          [1 / 2, 1 / 2], [1 / 2, 1 / 2], [1 / 2, 1 / 2], [1 / 2, 1 / 2],
          [1 / 2, 1], [1 / 2, 1],
          [1], [1, 0], [1, 1 / 2], [1, 1 / 2], [1, 1]],
       latticeDimensions := [4, 4], nSpins := 20, hausdorffScale := 1 / 2, kbT := 2,
       hasBeenSetup := True \<rparr>"

text \<open>
  What \<open>setup()\<close> makes after \<open>setCouplingConsts(-0.5, 0)\<close>, with the energy that
  \<open>runMonteCarlo()\<close> caches before its first sweep: the energy is 2, and 1 after
  a flip of any one spin.
\<close>

definition fourSpinsField :: IsingModel where
  "fourSpinsField = (newIsingModel ''HEATBATH'' 0 1)
     \<lparr> spinArray := [\<lparr>S = 1, active = True, coords = [0]\<rparr>,
                     \<lparr>S = 1, active = True, coords = [1 / 2]\<rparr>,
                     \<lparr>S = 1, active = True, coords = [1 / 2]\<rparr>,
                     \<lparr>S = 1, active = True, coords = [1]\<rparr>],
       latticeDimensions := [4], nSpins := 4, hausdorffScale := 1 / 2, H := - 1 / 2, J := 0,
       hasBeenSetup := True, currentEffH := 2 \<rparr>"

text \<open>
  What \<open>setup()\<close> makes after \<open>setCouplingConsts(0, 0)\<close> and \<open>setNumMCSteps(1)\<close>
  for the Hybrid method, and the same object with other spin values and other recorded
  energy changes.
\<close>

definition fourSpinsFree :: IsingModel where
  "fourSpinsFree = (newIsingModel ''HYBRID'' 0 1)
     \<lparr> spinArray := [\<lparr>S = 1, active = True, coords = [0]\<rparr>,
                     \<lparr>S = 1, active = True, coords = [1 / 2]\<rparr>,
                     \<lparr>S = 1, active = True, coords = [1 / 2]\<rparr>,
                     \<lparr>S = 1, active = True, coords = [1]\<rparr>],
       latticeDimensions := [4], nSpins := 4, hausdorffScale := 1 / 2, H := 0, J := 0,
       nMCSteps := 1, hasBeenSetup := True \<rparr>"

definition afterHybrid :: "int list \<Rightarrow> real list \<Rightarrow> IsingModel" where
  "afterHybrid ss info = fourSpinsFree
     \<lparr> spinArray := [\<lparr>S = ss ! 0, active = True, coords = [0]\<rparr>,
                     \<lparr>S = ss ! 1, active = True, coords = [1 / 2]\<rparr>,
                     \<lparr>S = ss ! 2, active = True, coords = [1 / 2]\<rparr>,
                     \<lparr>S = ss ! 3, active = True, coords = [1]\<rparr>],
       mcInfo := info \<rparr>"

section \<open>Lemmas\<close>

lemmas prog_defs = returnS_def throwS_def bindS_def getS_def modifyS_def atS_def putAtS_def
  andS_def fdiv_def std_isinf_def DBL_MAX_def getK_def geth_def getDistanceSq_def spinFlipOf_def pairTerm_def hasLeft_def
  hasRight_def neighbourTerms_def axisTerm_def spinTerm_def getEffHamiltonian_def
  getEffHamiltonian1_def

lemma upto_small:
  "[0..(-1::int)] = []" "[0..(0::int)] = [0]" "[0..(1::int)] = [0, 1]"
  "[0..(2::int)] = [0, 1, 2]" "[0..(3::int)] = [0, 1, 2, 3]"
  by (simp_all add: upto.simps)

lemma std_exp_eq: "1 / 4 \<le> exp x \<Longrightarrow> std_exp x = exp x"
  by (simp add: std_exp_def DBL_TRUE_MIN_def)

lemma std_exp_minus_ln2: "std_exp (- ln 2) = 1 / 2"
  by (simp add: std_exp_eq exp_minus)

lemma std_exp_zero: "std_exp 0 = 1"
  by (simp add: std_exp_eq)

lemma returnS_apply: "returnS x m = (Inr x, m)"
  by (simp add: returnS_def)

lemma bindS_getS: "bindS (getS f) g m = g (f m) m"
  by (simp add: bindS_def getS_def)

lemma bindS_value: "f m = (Inr x, m') \<Longrightarrow> bindS f g m = g x m'"
  by (simp add: bindS_def)

lemma getS_eq: "getS f m = (Inr x, m') \<Longrightarrow> x = f m"
  by (auto simp add: getS_def)

lemma atS_eq: "atS v i m = (Inr x, m') \<Longrightarrow> x = v ! nat i \<and> 0 \<le> i \<and> i < int (length v)"
  by (simp add: atS_def returnS_def throwS_def split: if_splits)

lemma getEffHamiltonian1_state: "snd (getEffHamiltonian1 i m) = m"
  by (simp add: getEffHamiltonian1_def getEffHamiltonian_state)

lemma getEffHamiltonian1_pair:
  "fst (getEffHamiltonian1 i m) = Inr tE \<Longrightarrow> getEffHamiltonian1 i m = (Inr tE, m)"
  using getEffHamiltonian1_state [of i m] by (cases "getEffHamiltonian1 i m") simp

subsection \<open>On a well-formed object the energy evaluation returns a value\<close>

lemma succeeds_returnS: "succeeds (returnS x) m"
  by (simp add: succeeds_def returnS_def)

lemma succeeds_getS: "succeeds (getS f) m"
  by (simp add: succeeds_def getS_def)

lemma succeeds_atS: "0 \<le> i \<Longrightarrow> i < int (length v) \<Longrightarrow> succeeds (atS v i) m"
  by (simp add: atS_def succeeds_returnS)

lemma succeeds_bindS:
  "succeeds f m \<Longrightarrow> (\<And>x. f m = (Inr x, m) \<Longrightarrow> succeeds (g x) m) \<Longrightarrow> succeeds (bindS f g) m"
  unfolding succeeds_def bindS_def by auto

lemma succeeds_andS:
  "succeeds a m \<Longrightarrow> (a m = (Inr True, m) \<Longrightarrow> succeeds b m) \<Longrightarrow> succeeds (andS a b) m"
  unfolding andS_def by (rule succeeds_bindS) (auto simp: succeeds_returnS)

lemma succeeds_forS:
  "(\<And>i a. i \<in> set xs \<Longrightarrow> succeeds (body i a) m) \<Longrightarrow> succeeds (forS xs body acc) m"
proof (induction xs arbitrary: acc)
  case Nil
  show ?case by (simp add: succeeds_returnS)
next
  case (Cons x xs)
  have step: "succeeds (body x acc) m"
    by (rule Cons.prems) simp
  have rest: "\<And>a. succeeds (forS xs body a) m"
    by (rule Cons.IH) (simp add: Cons.prems)
  show ?case
    by (simp, rule succeeds_bindS [OF step]) (rule rest)
qed

lemma succeeds_getK: "finite_couplings m \<Longrightarrow> succeeds getK m"
  by (simp add: finite_couplings_def getK_def fdiv_def succeeds_def bindS_def getS_def
      returnS_def)

lemma succeeds_geth: "finite_couplings m \<Longrightarrow> succeeds geth m"
  by (simp add: finite_couplings_def geth_def fdiv_def succeeds_def bindS_def getS_def
      returnS_def)

lemma succeeds_getDistanceSq:
  assumes "length (coords s1) = length (coords s2)"
  shows "succeeds (getDistanceSq s1 s2) m"
  unfolding getDistanceSq_def
  apply (intro succeeds_bindS succeeds_getS)
  apply (simp add: succeeds_returnS)
  apply (intro impI succeeds_bindS succeeds_forS)
    apply (auto intro!: succeeds_atS succeeds_returnS simp: assms)
  done

lemma wf_coords:
  "wf_model m \<Longrightarrow> 0 \<le> i \<Longrightarrow> i < int (length (spinArray m)) \<Longrightarrow>
     length (coords (spinArray m ! nat i)) = length (latticeDimensions m)"
  by (simp add: wf_model_def list_all_length)

lemma wf_dims_pos:
  "wf_model m \<Longrightarrow> 0 \<le> j \<Longrightarrow> j < int (length (latticeDimensions m)) \<Longrightarrow>
     0 < latticeDimensions m ! nat j ^ k"
  by (simp add: wf_model_def list_all_length)

lemma succeeds_pairTerm:
  assumes "wf_model m" "length (coords s) = length (latticeDimensions m)"
    "0 \<le> ni" "ni < int (length (spinArray m))" and T: "finite_couplings m"
  shows "succeeds (pairTerm flips s sf ni e) m"
  unfolding pairTerm_def
proof (rule succeeds_bindS [OF succeeds_getS])
  fix sa assume "getS spinArray m = (Inr sa, m)"
  then have sa: "sa = spinArray m" by (rule getS_eq)
  show "succeeds (bindS (atS sa ni) (\<lambda>t.
       if active t then
         bindS getK (\<lambda>k.
         bindS (getDistanceSq s t) (\<lambda>d.
         bindS (getS interactionSigma) (\<lambda>sig.
           returnS (e - k * (d powr (sig / 2)) * of_int (S s) * of_int (S t)
                               * of_int sf * of_int (spinFlipOf flips ni) / 2))))
       else returnS e)) m"
  proof (rule succeeds_bindS)
    show "succeeds (atS sa ni) m" using assms(3,4) sa by (simp add: succeeds_atS)
  next
    fix t assume "atS sa ni m = (Inr t, m)"
    then have "t = spinArray m ! nat ni" using sa by (auto dest: atS_eq)
    then have "length (coords s) = length (coords t)"
      using assms by (simp add: wf_coords)
    then show "succeeds (if active t then
         bindS getK (\<lambda>k.
         bindS (getDistanceSq s t) (\<lambda>d.
         bindS (getS interactionSigma) (\<lambda>sig.
           returnS (e - k * (d powr (sig / 2)) * of_int (S s) * of_int (S t)
                               * of_int sf * of_int (spinFlipOf flips ni) / 2))))
       else returnS e) m"
      by (auto intro!: succeeds_bindS succeeds_getK [OF T] succeeds_getS succeeds_returnS
          succeeds_getDistanceSq)
  qed
qed

lemma succeeds_pairTerm_if:
  assumes "wf_model m" "length (coords s) = length (latticeDimensions m)"
    "b \<Longrightarrow> 0 \<le> ni \<and> ni < int (length (spinArray m))" "finite_couplings m"
  shows "succeeds (if b then pairTerm flips s sf ni e else returnS e) m"
  using assms by (simp add: succeeds_returnS succeeds_pairTerm)

lemma succeeds_coordTest:
  "0 \<le> j \<Longrightarrow> j < int (length cs) \<Longrightarrow>
   succeeds (bindS (atS cs j) (\<lambda>c. bindS (getS f) (\<lambda>x. returnS (c \<noteq> x)))) m"
  by (intro succeeds_bindS succeeds_atS succeeds_getS succeeds_returnS)

lemma succeeds_neighbourTest:
  assumes "wf_model m" "0 \<le> j" "j < int (length (latticeDimensions m))"
    "0 \<le> ni" "ni < int (length (spinArray m))"
  shows "succeeds (bindS (getS spinArray) (\<lambda>sa. bindS (atS sa ni) (\<lambda>t.
              bindS (atS (coords t) j) (\<lambda>c. bindS (getS f) (\<lambda>x. returnS (c \<noteq> x)))))) m"
proof (rule succeeds_bindS [OF succeeds_getS])
  fix sa assume "getS spinArray m = (Inr sa, m)"
  then have sa: "sa = spinArray m" by (rule getS_eq)
  show "succeeds (bindS (atS sa ni) (\<lambda>t.
              bindS (atS (coords t) j) (\<lambda>c. bindS (getS f) (\<lambda>x. returnS (c \<noteq> x))))) m"
  proof (rule succeeds_bindS)
    show "succeeds (atS sa ni) m" using assms(4,5) sa by (simp add: succeeds_atS)
  next
    fix t assume "atS sa ni m = (Inr t, m)"
    then have "t = spinArray m ! nat ni" using sa by (auto dest: atS_eq)
    then have "j < int (length (coords t))"
      using assms by (simp add: wf_coords)
    then show "succeeds (bindS (atS (coords t) j)
                 (\<lambda>c. bindS (getS f) (\<lambda>x. returnS (c \<noteq> x)))) m"
      using assms(2) by (intro succeeds_coordTest)
  qed
qed

lemma andS_returnS_True:
  "andS (returnS c) b m = (Inr True, m') \<Longrightarrow> c"
  by (auto simp: andS_def bindS_def returnS_def split: if_splits)

lemma hasLeft_True:
  "hasLeft i s j indexPM m = (Inr True, m') \<Longrightarrow> indexPM - 1 < i"
  unfolding hasLeft_def by (rule andS_returnS_True)

lemma hasRight_True:
  "hasRight i s j indexPM m = (Inr True, m') \<Longrightarrow> i + indexPM < nSpins m"
  unfolding hasRight_def by (auto simp: bindS_def getS_def dest: andS_returnS_True)

lemma succeeds_hasLeft:
  assumes wf: "wf_model m" and s: "length (coords s) = length (latticeDimensions m)"
    and i: "0 \<le> i" "i < int (length (spinArray m))"
    and j: "0 \<le> j" "j < int (length (latticeDimensions m))"
    and pos: "0 < indexPM"
  shows "succeeds (hasLeft i s j indexPM) m"
  unfolding hasLeft_def
proof (intro succeeds_andS succeeds_returnS succeeds_coordTest succeeds_neighbourTest [OF wf j])
  show "0 \<le> j" "j < int (length (coords s))" using s j by simp_all
  assume "returnS (indexPM - 1 < i) m = (Inr True, m)"
  then have "indexPM - 1 < i" by (simp add: returnS_def)
  then show "0 \<le> i - indexPM" "i - indexPM < int (length (spinArray m))"
    using i pos by simp_all
qed

lemma succeeds_hasRight:
  assumes wf: "wf_model m" and s: "length (coords s) = length (latticeDimensions m)"
    and i: "0 \<le> i" "i < int (length (spinArray m))"
    and j: "0 \<le> j" "j < int (length (latticeDimensions m))"
    and pos: "0 < indexPM"
  shows "succeeds (hasRight i s j indexPM) m"
  unfolding hasRight_def
proof (rule succeeds_bindS [OF succeeds_getS],
    intro succeeds_andS succeeds_returnS succeeds_coordTest succeeds_neighbourTest [OF wf j])
  show "0 \<le> j" "j < int (length (coords s))" using s j by simp_all
  fix k assume "getS nSpins m = (Inr k, m)" "returnS (i + indexPM < k) m = (Inr True, m)"
  then have "i + indexPM < int (length (spinArray m))"
    using wf by (auto simp: returnS_def wf_model_def dest: getS_eq)
  then show "0 \<le> i + indexPM" "i + indexPM < int (length (spinArray m))"
    using i pos by simp_all
qed

lemma succeeds_neighbourTerms:
  assumes wf: "wf_model m" and s: "length (coords s) = length (latticeDimensions m)"
    and i: "0 \<le> i" "i < int (length (spinArray m))"
    and j: "0 \<le> j" "j < int (length (latticeDimensions m))"
    and pos: "0 < indexPM" and T: "finite_couplings m"
  shows "succeeds (neighbourTerms flips i s sf j indexPM e) m"
  unfolding neighbourTerms_def
proof (rule succeeds_bindS [OF succeeds_hasLeft [OF wf s i j pos]])
  fix l assume "hasLeft i s j indexPM m = (Inr l, m)"
  then have "l \<Longrightarrow> indexPM - 1 < i"
    by (auto dest: hasLeft_True)
  then have first: "succeeds (if l then pairTerm flips s sf (i - indexPM) e else returnS e) m"
    using i pos by (intro succeeds_pairTerm_if [OF wf s _ T]) auto
  show "succeeds (bindS (if l then pairTerm flips s sf (i - indexPM) e else returnS e)
          (\<lambda>energy1. bindS (hasRight i s j indexPM) (\<lambda>right.
             if right then pairTerm flips s sf (i + indexPM) energy1 else returnS energy1))) m"
  proof (rule succeeds_bindS [OF first],
      rule succeeds_bindS [OF succeeds_hasRight [OF wf s i j pos]])
    fix e1 r assume "hasRight i s j indexPM m = (Inr r, m)"
    then have "r \<Longrightarrow> i + indexPM < int (length (spinArray m))"
      using wf by (auto simp: wf_model_def dest: hasRight_True)
    then show "succeeds (if r then pairTerm flips s sf (i + indexPM) e1 else returnS e1) m"
      using i pos by (intro succeeds_pairTerm_if [OF wf s _ T]) auto
  qed
qed

lemma succeeds_axisTerm:
  assumes wf: "wf_model m" and s: "length (coords s) = length (latticeDimensions m)"
    and i: "0 \<le> i" "i < int (length (spinArray m))"
    and j: "0 \<le> j" "j < int (length (latticeDimensions m))" and T: "finite_couplings m"
  shows "succeeds (axisTerm flips i s sf j e) m"
  unfolding axisTerm_def
proof (intro succeeds_bindS succeeds_getS succeeds_atS)
  fix dims assume "getS latticeDimensions m = (Inr dims, m)"
  then have dims: "dims = latticeDimensions m" by (rule getS_eq)
  show "0 \<le> j" "j < int (length dims)" using j dims by simp_all
  fix dj assume "atS dims j m = (Inr dj, m)"
  then have "dj = latticeDimensions m ! nat j" using dims by (auto dest: atS_eq)
  then have "0 < dj ^ nat (int (length dims) - 1 - j)"
    using wf_dims_pos [OF wf j] by simp
  then show "succeeds (neighbourTerms flips i s sf j (dj ^ nat (int (length dims) - 1 - j)) e) m"
    by (intro succeeds_neighbourTerms [OF wf s i j _ T])
qed

lemma succeeds_spinTerm:
  assumes wf: "wf_model m" and i: "0 \<le> i" "i < int (length (spinArray m))"
    and T: "finite_couplings m"
  shows "succeeds (spinTerm flips i e) m"
  unfolding spinTerm_def Let_def
  apply (rule succeeds_bindS [OF succeeds_getS])
  apply (drule getS_eq, simp)
  apply (rule succeeds_bindS [OF succeeds_atS [OF i]])
  apply (drule atS_eq)
  apply (simp add: succeeds_returnS)
  apply (intro impI succeeds_bindS succeeds_geth [OF T] succeeds_getS)
  apply (drule getS_eq, simp)
  apply (rule succeeds_forS)
  apply (rule succeeds_axisTerm [OF wf _ i _ _ T])
  using wf i apply (simp add: wf_coords)
   apply simp
  apply simp
  done

lemma succeeds_getEffHamiltonian:
  assumes wf: "wf_model m" and T: "finite_couplings m"
  shows "succeeds (getEffHamiltonian flips) m"
  unfolding getEffHamiltonian_def
  apply (rule succeeds_bindS [OF succeeds_getS])
  apply (drule getS_eq, simp)
  apply (rule succeeds_forS)
  apply (rule succeeds_spinTerm [OF wf _ _ T])
  using wf apply (simp_all add: wf_model_def)
  done

subsection \<open>The energy depends on the flip list through its set of indices\<close>

lemma spinFlipOf_set: "set flips = set flips' \<Longrightarrow> spinFlipOf flips = spinFlipOf flips'"
  by (simp add: spinFlipOf_def fun_eq_iff)

lemma getEffHamiltonian_set:
  assumes "set flips = set flips'"
  shows "getEffHamiltonian flips = getEffHamiltonian flips'"
proof -
  have sf: "spinFlipOf flips = spinFlipOf flips'"
    using assms by (rule spinFlipOf_set)
  have pt: "pairTerm flips = pairTerm flips'"
    unfolding pairTerm_def sf ..
  have nt: "neighbourTerms flips = neighbourTerms flips'"
    unfolding neighbourTerms_def pt ..
  have at: "axisTerm flips = axisTerm flips'"
    unfolding axisTerm_def nt ..
  have st: "spinTerm flips = spinTerm flips'"
    unfolding spinTerm_def sf at ..
  show ?thesis
    unfolding getEffHamiltonian_def st ..
qed

lemma getEffHamiltonian_value:
  assumes "wf_model m" "finite_couplings m"
  shows "getEffHamiltonian flips m = (Inr (effectiveHamiltonian m (set flips)), m)"
proof -
  have "set (sorted_list_of_set (set flips)) = set flips"
    by simp
  then have eq: "getEffHamiltonian (sorted_list_of_set (set flips)) = getEffHamiltonian flips"
    by (rule getEffHamiltonian_set)
  obtain e where "getEffHamiltonian flips m = (Inr e, m)"
    using succeeds_getEffHamiltonian [OF assms] by (auto simp: succeeds_def)
  then show ?thesis
    by (simp add: effectiveHamiltonian_def eq)
qed

subsection \<open>The recursion of the partition function\<close>

lemma sum_Pow_insert:
  fixes h :: "int set \<Rightarrow> real"
  assumes "a \<notin> B" "finite B"
  shows "sum h (Pow (insert a B)) = sum h (Pow B) + sum (\<lambda>T. h (insert a T)) (Pow B)"
proof -
  have inj: "inj_on (insert a) (Pow B)"
    using assms(1) by (auto simp: inj_on_def)
  have disj: "Pow B \<inter> insert a ` Pow B = {}"
    using assms(1) by auto
  have "sum h (Pow (insert a B)) = sum h (Pow B) + sum h (insert a ` Pow B)"
    using assms(2) disj by (simp add: Pow_insert sum.union_disjoint)
  also have "sum h (insert a ` Pow B) = sum (\<lambda>T. h (insert a T)) (Pow B)"
    using inj by (simp add: sum.reindex)
  finally show ?thesis .
qed

text \<open>
  A call with index \<open>start\<close> and flip list \<open>flips\<close> returns the sum of the weights of
  the flip sets that extend \<open>flips\<close> by a nonempty set of indices from \<open>start\<close> on; the
  call with \<open>start = 0\<close> adds the weight of the empty flip set.
\<close>

lemma computePartitionFunction_rec:
  assumes wf: "wf_model m" and T: "finite_couplings m"
  shows "0 \<le> start \<Longrightarrow>
    computePartitionFunction start flips m =
      (Inr ((\<Sum>T \<in> Pow {start ..< nSpins m}. exp (effectiveHamiltonian m (set flips \<union> T)))
            - exp (effectiveHamiltonian m (set flips))
            + (if start = 0 \<and> start < nSpins m then exp (effectiveHamiltonian m {}) else 0)), m)"
proof (induction "nat (nSpins m - start)" arbitrary: start flips)
  case 0
  then have ge: "nSpins m \<le> start" by simp
  then have "{start ..< nSpins m} = {}" by simp
  then show ?case using ge
    by (simp add: computePartitionFunction.simps)
next
  case (Suc k)
  then have lt: "start < nSpins m" by simp
  let ?B = "{start + 1 ..< nSpins m}"
  let ?w = "\<lambda>F. exp (effectiveHamiltonian m F)"
  have A: "{start ..< nSpins m} = insert start ?B"
    using lt by auto
  have notin: "start \<notin> ?B" by simp
  have k: "k = nat (nSpins m - (start + 1))" using Suc.hyps(2) by simp
  have pos: "0 \<le> start + 1" "start + 1 \<noteq> 0" using Suc.prems by simp_all
  have ih1: "computePartitionFunction (start + 1) (flips @ [start]) m =
      (Inr ((\<Sum>T \<in> Pow ?B. ?w (set flips \<union> insert start T)) - ?w (insert start (set flips))), m)"
    using Suc.hyps(1) [OF k pos(1), of "flips @ [start]"] pos(2) by simp
  have ih2: "computePartitionFunction (start + 1) flips m =
      (Inr ((\<Sum>T \<in> Pow ?B. ?w (set flips \<union> T)) - ?w (set flips)), m)"
    using Suc.hyps(1) [OF k pos(1), of flips] pos(2) by simp
  have spl: "(\<Sum>T \<in> Pow (insert start ?B). ?w (set flips \<union> T)) =
      (\<Sum>T \<in> Pow ?B. ?w (set flips \<union> T)) + (\<Sum>T \<in> Pow ?B. ?w (set flips \<union> insert start T))"
    by (rule sum_Pow_insert [OF notin]) simp
  show ?case
    using lt
    by (simp add: computePartitionFunction.simps [of start] getEffHamiltonian_value [OF wf T]
        ih1 ih2 A spl del: Pow_insert)
qed

subsection \<open>The partition function does not read the set-up flag\<close>

lemma flagfree_returnS: "flagfree (returnS x)"
  by (simp add: flagfree_def returnS_def)

lemma flagfree_throwS: "flagfree (throwS e)"
  by (simp add: flagfree_def throwS_def)

lemma flagfree_atS: "flagfree (atS v i)"
  by (simp add: atS_def flagfree_returnS flagfree_throwS)

lemma flagfree_getS:
  "(\<And>m b. fld (m\<lparr>hasBeenSetup := b\<rparr>) = fld m) \<Longrightarrow> flagfree (getS fld)"
  by (simp add: flagfree_def getS_def)

lemma flagfree_bindS:
  assumes "flagfree f" "\<And>x. flagfree (g x)"
  shows "flagfree (bindS f g)"
  unfolding flagfree_def
proof (intro allI)
  fix m b
  obtain r m' where fm: "f m = (r, m')" by (cases "f m")
  have fb: "f (m\<lparr>hasBeenSetup := b\<rparr>) = (r, m'\<lparr>hasBeenSetup := b\<rparr>)"
    using assms(1) fm by (simp add: flagfree_def)
  show "bindS f g (m\<lparr>hasBeenSetup := b\<rparr>) =
          (fst (bindS f g m), (snd (bindS f g m))\<lparr>hasBeenSetup := b\<rparr>)"
  proof (cases r)
    case (Inl e)
    then show ?thesis by (simp add: bindS_def fm fb)
  next
    case (Inr x)
    have "g x (m'\<lparr>hasBeenSetup := b\<rparr>) = (fst (g x m'), (snd (g x m'))\<lparr>hasBeenSetup := b\<rparr>)"
      using assms(2) [of x] by (simp add: flagfree_def)
    then show ?thesis using Inr by (simp add: bindS_def fm fb)
  qed
qed

lemma flagfree_if: "flagfree f \<Longrightarrow> flagfree g \<Longrightarrow> flagfree (if c then f else g)"
  by simp

lemma flagfree_andS: "flagfree a \<Longrightarrow> flagfree b \<Longrightarrow> flagfree (andS a b)"
  by (simp add: andS_def flagfree_bindS flagfree_returnS)

lemma flagfree_forS: "(\<And>i a. flagfree (body i a)) \<Longrightarrow> flagfree (forS xs body acc)"
  by (induction xs arbitrary: acc) (simp_all add: flagfree_returnS flagfree_bindS)

lemmas flagfree_intros = flagfree_returnS flagfree_throwS flagfree_getS flagfree_atS
  flagfree_bindS flagfree_if flagfree_andS flagfree_forS

lemma flagfree_fdiv: "flagfree (fdiv a b)"
  by (simp add: fdiv_def flagfree_returnS flagfree_throwS)

lemma flagfree_getK: "flagfree getK"
  unfolding getK_def by (intro flagfree_intros flagfree_fdiv) simp_all

lemma flagfree_geth: "flagfree geth"
  unfolding geth_def by (intro flagfree_intros flagfree_fdiv) simp_all

lemma flagfree_getDistanceSq: "flagfree (getDistanceSq s1 s2)"
  unfolding getDistanceSq_def by (intro flagfree_intros) simp_all

lemma flagfree_pairTerm: "flagfree (pairTerm flips s sf ni e)"
  unfolding pairTerm_def by (intro flagfree_intros flagfree_getK flagfree_getDistanceSq) simp_all

lemma flagfree_neighbourTerms: "flagfree (neighbourTerms flips i s sf j ipm e)"
  unfolding neighbourTerms_def hasLeft_def hasRight_def
  by (intro flagfree_intros flagfree_pairTerm) simp_all

lemma flagfree_axisTerm: "flagfree (axisTerm flips i s sf j e)"
  unfolding axisTerm_def by (intro flagfree_intros flagfree_neighbourTerms) simp_all

lemma flagfree_spinTerm: "flagfree (spinTerm flips i e)"
  unfolding spinTerm_def Let_def by (intro flagfree_intros flagfree_geth flagfree_axisTerm) simp_all

lemma flagfree_getEffHamiltonian: "flagfree (getEffHamiltonian flips)"
  unfolding getEffHamiltonian_def by (intro flagfree_intros flagfree_spinTerm) simp_all

lemma getEffHamiltonian_flag:
  "getEffHamiltonian flips m = (r, m') \<Longrightarrow>
     m' = m \<and> getEffHamiltonian flips (m\<lparr>hasBeenSetup := b\<rparr>) = (r, m\<lparr>hasBeenSetup := b\<rparr>)"
  using flagfree_getEffHamiltonian [of flips] getEffHamiltonian_state [of flips m]
  by (simp add: flagfree_def)

lemma computePartitionFunction_frame_flag:
  "snd (computePartitionFunction start flips m) = m \<and>
   computePartitionFunction start flips (m\<lparr>hasBeenSetup := b\<rparr>) =
     (fst (computePartitionFunction start flips m), m\<lparr>hasBeenSetup := b\<rparr>)"
proof (induction "nat (nSpins m - start)" arbitrary: start flips)
  case 0
  then have "nSpins m \<le> start" by simp
  then show ?case by (simp add: computePartitionFunction.simps)
next
  case (Suc k)
  let ?mb = "m\<lparr>hasBeenSetup := b\<rparr>"
  have lt: "\<not> nSpins m \<le> start" "\<not> nSpins ?mb \<le> start" using Suc.hyps(2) by simp_all
  have k: "k = nat (nSpins m - (start + 1))" using Suc.hyps(2) by simp
  obtain r1 m1 where g1: "getEffHamiltonian (flips @ [start]) m = (r1, m1)"
    by (cases "getEffHamiltonian (flips @ [start]) m")
  note g1' = getEffHamiltonian_flag [OF g1, of b]
  obtain r2 where c2: "computePartitionFunction (start + 1) (flips @ [start]) m = (r2, m)"
    using Suc.hyps(1) [OF k, of "flips @ [start]"]
    by (cases "computePartitionFunction (start + 1) (flips @ [start]) m") simp
  have c2': "computePartitionFunction (start + 1) (flips @ [start]) ?mb = (r2, ?mb)"
    using Suc.hyps(1) [OF k, of "flips @ [start]"] c2 by simp
  obtain r3 where c3: "computePartitionFunction (start + 1) flips m = (r3, m)"
    using Suc.hyps(1) [OF k, of flips]
    by (cases "computePartitionFunction (start + 1) flips m") simp
  have c3': "computePartitionFunction (start + 1) flips ?mb = (r3, ?mb)"
    using Suc.hyps(1) [OF k, of flips] c3 by simp
  obtain r4 m4 where g4: "getEffHamiltonian [] m = (r4, m4)"
    by (cases "getEffHamiltonian [] m")
  note g4' = getEffHamiltonian_flag [OF g4, of b]
  show ?case
    using lt g1 g1' c2 c2' c3 c3' g4 g4'
    by (simp add: computePartitionFunction.simps [of start] split: sum.splits)
qed

subsection \<open>The acceptance rules\<close>

lemma accept_flip:
  assumes "0 \<le> i" "i < int (length (spinArray m))"
  shows "bindS (flipSpin i) (\<lambda>_. bindS (recordFlip tE) (\<lambda>_. returnS r)) m
           = (Inr r, flippedAt i tE m)"
  using assms
  by (simp add: flipSpin_def recordFlip_def bindS_def getS_def atS_def returnS_def modifyS_def
      flippedAt_def)

lemma metropolis_lower:
  assumes e: "fst (getEffHamiltonian1 i m) = Inr tE" and lt: "tE < currentEffH m"
    and i: "0 \<le> i" "i < int (length (spinArray m))"
  shows "metropolisSpin i rNG m = (Inr rNG, flippedAt i tE m)"
proof -
  have "metropolisSpin i rNG m =
      bindS (flipSpin i) (\<lambda>_. bindS (recordFlip tE) (\<lambda>_. returnS rNG)) m"
    using lt
    by (simp add: metropolisSpin_def bindS_getS
        bindS_value [of "getEffHamiltonian1 i" m, OF getEffHamiltonian1_pair [OF e]])
  then show ?thesis by (simp add: accept_flip [OF i])
qed

lemma std_exp_bounds: "0 \<le> std_exp x" "std_exp x \<le> exp x"
  by (simp_all add: std_exp_def)

lemma heatBath_lower:
  assumes e: "fst (getEffHamiltonian1 i m) = Inr tE" and lt: "tE < currentEffH m"
    and i: "0 \<le> i" "i < int (length (spinArray m))"
  shows "heatBathSpin i rNG m =
     (if std_isinf (exp (currentEffH m - tE)) then (Inr rNG, flippedAt i tE m)
      else if rNG 0 < exp (currentEffH m - tE)
                        / (std_exp (tE - currentEffH m) + exp (currentEffH m - tE))
      then (Inr (\<lambda>n. rNG (Suc n)), flippedAt i tE m)
      else (Inr (\<lambda>n. rNG (Suc n)), m))"
proof -
  have one: "1 \<le> exp (currentEffH m - tE)" using lt by simp
  have a: "std_exp (currentEffH m - tE) = exp (currentEffH m - tE)"
    by (rule std_exp_eq) (use one in linarith)
  show ?thesis
    by (simp add: heatBathSpin_def bindS_getS Uniform_def Let_def accept_flip [OF i]
        returnS_apply a
        bindS_value [of "getEffHamiltonian1 i" m, OF getEffHamiltonian1_pair [OF e]])
qed

lemma heatBath_ratio_half:
  fixes c t :: real
  assumes "t < c"
  shows "1 / 2 \<le> exp (c - t) / (std_exp (t - c) + exp (c - t))"
proof -
  have "std_exp (t - c) \<le> exp (t - c)" by (rule std_exp_bounds)
  also have "exp (t - c) \<le> exp (c - t)" using assms by simp
  finally have le: "std_exp (t - c) + exp (c - t) \<le> 2 * exp (c - t)" by simp
  have pos: "0 < std_exp (t - c) + exp (c - t)"
    using std_exp_bounds(1) [of "t - c"] exp_gt_zero [of "c - t"] by linarith
  show ?thesis
    using le pos by (simp add: pos_le_divide_eq)
qed

lemma exp_le_3: "x \<le> 1 \<Longrightarrow> exp x \<le> (3::real)"
  using exp_le order_trans exp_le_cancel_iff [of x 1] by blast

lemma heatBath_ratio_gap1:
  fixes c t :: real
  assumes "t < c" "c - t \<le> 1"
  shows "exp (c - t) / (std_exp (t - c) + exp (c - t)) \<le> 9 / 10"
    and "\<not> std_isinf (exp (c - t))"
proof -
  have e3: "exp (c - t) \<le> 3" using assms(2) by (rule exp_le_3)
  have pos: "0 < exp (c - t)" by simp
  have inv: "exp (t - c) = 1 / exp (c - t)"
    using exp_minus [of "c - t"] by (simp add: field_simps)
  have "1 / 3 \<le> exp (t - c)"
    unfolding inv using e3 pos by (simp add: field_simps)
  then have b: "std_exp (t - c) = exp (t - c)"
    by (intro std_exp_eq) simp
  have "exp (c - t) * exp (c - t) \<le> 3 * 3"
    using e3 pos by (intro mult_mono) simp_all
  then have "exp (c - t) \<le> 9 * exp (t - c)"
    unfolding inv using pos by (simp add: field_simps)
  then show "exp (c - t) / (std_exp (t - c) + exp (c - t)) \<le> 9 / 10"
    unfolding b by (simp add: pos_divide_le_eq add_pos_pos)
  have "(3::real) \<le> DBL_MAX" by (simp add: DBL_MAX_def)
  then show "\<not> std_isinf (exp (c - t))"
    using e3 pos by (simp add: std_isinf_def)
qed

lemma heatBath_accept_half:
  assumes e: "fst (getEffHamiltonian1 i m) = Inr tE" and lt: "tE < currentEffH m"
    and i: "0 \<le> i" "i < int (length (spinArray m))" and u: "rNG 0 < 1 / 2"
  shows "snd (heatBathSpin i rNG m) = flippedAt i tE m"
proof -
  have "1 / 2 \<le> exp (currentEffH m - tE)
                    / (std_exp (tE - currentEffH m) + exp (currentEffH m - tE))"
    by (rule heatBath_ratio_half [OF lt])
  then have "rNG 0 < exp (currentEffH m - tE)
                       / (std_exp (tE - currentEffH m) + exp (currentEffH m - tE))"
    using u by linarith
  then show ?thesis by (simp add: heatBath_lower [OF e lt i])
qed

lemma heatBath_reject_gap1:
  assumes e: "fst (getEffHamiltonian1 i m) = Inr tE" and lt: "tE < currentEffH m"
    and i: "0 \<le> i" "i < int (length (spinArray m))"
    and gap: "currentEffH m - tE \<le> 1" and u: "9 / 10 \<le> rNG 0"
  shows "heatBathSpin i rNG m = (Inr (\<lambda>n. rNG (Suc n)), m)"
proof -
  have "exp (currentEffH m - tE)
          / (std_exp (tE - currentEffH m) + exp (currentEffH m - tE)) \<le> 9 / 10"
    by (rule heatBath_ratio_gap1 [OF lt gap])
  then have "\<not> rNG 0 < exp (currentEffH m - tE)
                         / (std_exp (tE - currentEffH m) + exp (currentEffH m - tE))"
    using u by linarith
  then show ?thesis
    using heatBath_ratio_gap1(2) [OF lt gap] by (simp add: heatBath_lower [OF e lt i])
qed

lemma setup_fourSpinsField:
  "setupModel (setCouplingConsts (- 1 / 2) 0 (newIsingModel ''HEATBATH'' 0 1))
     = Some (Inr (), fourSpinsField\<lparr>currentEffH := 0\<rparr>)"
  by (simp add: setupModel_def newIsingModel_def Let_def std_exp_minus_ln2 fdiv_def std_isinf_def DBL_MAX_def double_to_int_def
      addSpins_def cellLoop.simps cubeLoop.simps bindS_def atS_def returnS_def throwS_def
      nextPermutation_def nextPermutationFrom.simps getS_def cellPosition_def placeSpin_def
      upto_small putAtS_def modifyS_def QuickSort.simps QSPartition_def swap_def
      spinGreater_def upto.simps fourSpinsField_def setCouplingConsts_def)

lemma fourSpinsField_energy:
  "getEffHamiltonian [] (fourSpinsField\<lparr>currentEffH := 0\<rparr>)
     = (Inr 2, fourSpinsField\<lparr>currentEffH := 0\<rparr>)"
  "getEffHamiltonian1 0 fourSpinsField = (Inr 1, fourSpinsField)"
  by (simp_all add: prog_defs fourSpinsField_def newIsingModel_def upto_small Let_def)

subsection \<open>Where the source leaves the finite doubles\<close>

text \<open>
  At temperature 0, which \<open>setTemperature\<close> accepts, the energy is not finite. With
  a scaling method other than \<open>SCALING\<close> on a new object the scale stays 0 and the
  coordinates are not finite.
\<close>

lemma zero_temperature_NotFinite:
  "getEffHamiltonian flips (setTemperature 0 fourSpins)
     = (Inl NotFinite, setTemperature 0 fourSpins)"
  by (simp add: prog_defs setTemperature_def fourSpins_def newIsingModel_def upto_small Let_def)

lemma zero_scale_NotFinite:
  "map_option fst (setupModel (setHausdorffMethod ''SPLITTING'' (newIsingModel mcmd 0 1)))
     = Some (Inl NotFinite)"
  by (simp add: setupModel_def setHausdorffMethod_def newIsingModel_def Let_def fdiv_def
      double_to_int_def addSpins_def cellLoop.simps bindS_def atS_def returnS_def throwS_def
      getS_def cellPosition_def upto_small putAtS_def)

subsection \<open>The geometry builder at depth 0\<close>

text \<open>
  At depth 0 the vector \<open>vN\<close> of \<open>addSpins\<close> is empty, and the condition
  \<open>vN.at(0) != -1\<close> of its loop throws before a spin is made. So \<open>setup()\<close> ends
  with that exception, or earlier with its own check of the scale, whatever the
  dimension is.
\<close>

lemma addSpins_depth0:
  "\<exists>e. addSpins 0 x0 x1 m = Some (Inl e, m)"
  by (simp add: addSpins_def cellLoop.simps bindS_def atS_def returnS_def throwS_def
      split: prod.splits sum.splits)

lemma setupModel_depth0:
  assumes "latticeDepth m = 0"
  shows "\<exists>e m'. setupModel m = Some (Inl e, m') \<and> spinArray m' = spinArray m
           \<and> nSpins m' = nSpins m"
proof -
  define m1 where "m1 = (if hausdorffMethod m = ''SCALING''
                then m\<lparr>hausdorffScale :=
                         std_exp (- of_int \<lceil>hausdorffDim m\<rceil> * ln (hausdorffSlices m)
                                  / hausdorffDim m)\<rparr>
                else m)"
  define m2 where "m2 = m1\<lparr>latticeDimensions :=
                      latticeDimensions m1 @
                      replicate (nat \<lceil>hausdorffDim m1\<rceil>)
                        (double_to_int (2 * hausdorffSlices m1 powi latticeDepth m1))\<rparr>"
  have keep: "spinArray m1 = spinArray m" "nSpins m1 = nSpins m"
    "spinArray m2 = spinArray m" "nSpins m2 = nSpins m" "latticeDepth m2 = 0"
    using assms by (simp_all add: m1_def m2_def)
  obtain e where e: "addSpins (latticeDepth m2)
      (replicate (length (latticeDimensions m2)) 0) (replicate (length (latticeDimensions m2)) 1) m2
      = Some (Inl e, m2)"
    using addSpins_depth0 keep(5) by metis
  have "setupModel m =
      (if hausdorffScale m1 > 1 / hausdorffSlices m1 then
        Some (Inl (ExitFailure ''ERROR: Invalid Hausdorff scaling''), m1)
       else Some (Inl e, m2))"
    unfolding setupModel_def Let_def m1_def [symmetric] m2_def [symmetric]
    by (simp add: e)
  then show ?thesis using keep by auto
qed

subsection \<open>What the geometry builder builds\<close>

text \<open>
  The loops of \<open>addSpins\<close> only append spins, each active and with one coordinate for
  each axis; the sort keeps the length and the elements of the array. So a \<open>setup()\<close>
  that returns, on a new or reset object, leaves a well-formed object with at least
  one spin, all spins active.
\<close>

lemma extends_refl: "extends m m"
  unfolding extends_def by (rule exI [of _ "[]"]) simp

lemma extends_trans:
  assumes "extends m m1" "extends m1 m2"
  shows "extends m m2"
proof -
  obtain a where a: "m1 = m\<lparr>spinArray := spinArray m @ a, nSpins := nSpins m + int (length a)\<rparr>"
    "list_all (\<lambda>s. length (coords s) = length (latticeDimensions m) \<and> active s) a"
    using assms(1) by (auto simp: extends_def)
  obtain b where b: "m2 = m1\<lparr>spinArray := spinArray m1 @ b, nSpins := nSpins m1 + int (length b)\<rparr>"
    "list_all (\<lambda>s. length (coords s) = length (latticeDimensions m1) \<and> active s) b"
    using assms(2) by (auto simp: extends_def)
  show ?thesis
    unfolding extends_def using a b by (intro exI [of _ "a @ b"]) simp
qed

lemma extends_fields:
  assumes "extends m m'"
  shows "latticeDimensions m' = latticeDimensions m" "hausdorffSlices m' = hausdorffSlices m"
    "nSpins m \<le> nSpins m'" "latticeDepth m' = latticeDepth m"
  using assms by (auto simp: extends_def)

lemma bindS_Inr:
  "bindS f g m = (Inr y, m') \<Longrightarrow> \<exists>x m1. f m = (Inr x, m1) \<and> g x m1 = (Inr y, m')"
  by (auto simp: bindS_def split: prod.splits sum.splits)

lemma atS_Inr: "atS v i m = (Inr x, m') \<Longrightarrow> m' = m"
  by (simp add: atS_def returnS_def throwS_def split: if_splits)

lemma putAtS_Inr: "putAtS v i x m = (Inr v', m') \<Longrightarrow> m' = m \<and> length v' = length v"
  by (auto simp: putAtS_def returnS_def throwS_def split: if_splits)

lemma getS_Inr: "getS f m = (Inr x, m') \<Longrightarrow> m' = m \<and> x = f m"
  by (auto simp: getS_def)

lemma forS_invariant:
  assumes step: "\<And>i a m r m'. P a \<Longrightarrow> body i a m = (Inr r, m') \<Longrightarrow> P r \<and> m' = m"
  shows "P acc \<Longrightarrow> forS xs body acc m = (Inr r, m') \<Longrightarrow> P r \<and> m' = m"
proof (induction xs arbitrary: acc)
  case Nil
  then show ?case by (simp add: returnS_def)
next
  case (Cons x xs)
  from Cons.prems(2) obtain a1 m1 where
    b: "body x acc m = (Inr a1, m1)" and r: "forS xs body a1 m1 = (Inr r, m')"
    by (auto dest: bindS_Inr)
  have "P a1 \<and> m1 = m" using step [OF Cons.prems(1) b] .
  then show ?case using Cons.IH [of a1] r by simp
qed

lemma coords_loop_length:
  "forS xs (\<lambda>index cs.
             bindS (atS cubePoints index) (\<lambda>cp.
             bindS (atS cPos index) (\<lambda>c. putAtS cs index (f cp c)))) acc m = (Inr r, m')
   \<Longrightarrow> length r = length acc \<and> m' = m"
  by (rule forS_invariant [where P = "\<lambda>a. length a = length acc"])
    (auto dest!: bindS_Inr atS_Inr putAtS_Inr)

lemma placeSpin_extends:
  assumes "placeSpin depth delta cPos cubePoints m = (Inr u, m')"
  shows "extends m m' \<and> nSpins m' = nSpins m + 1"
proof -
  from assms obtain cs m1 where
    cs: "forS [0 .. int (length cubePoints) - 1]
           (\<lambda>index cs.
                 bindS (atS cubePoints index) (\<lambda>cp.
                 bindS (atS cPos index) (\<lambda>c.
                   putAtS cs index (of_int cp * hausdorffScale m powi depth * delta + c))))
           (replicate (length (latticeDimensions m)) 0) m = (Inr cs, m1)"
    and m': "m' = m1\<lparr>spinArray := spinArray m1 @ [\<lparr>S = 1, active = True, coords = cs\<rparr>],
                       nSpins := nSpins m1 + 1\<rparr>"
    unfolding placeSpin_def
    by (auto dest!: bindS_Inr getS_Inr simp: modifyS_def)
  have "length cs = length (latticeDimensions m) \<and> m1 = m"
    using coords_loop_length [OF cs] by simp
  then show ?thesis
    unfolding extends_def
    using m' by (intro conjI exI [of _ "[\<lparr>S = 1, active = True, coords = cs\<rparr>]"]) simp_all
qed

lemma cubeLoop_extends_aux:
  assumes "cubeLoop depth delta cPos cubePoints m = Some y"
  shows "isl (fst y) \<or> extends m (snd y)"
proof (rule cubeLoop.raw_induct
    [where P = "\<lambda>depth delta cPos cubePoints m y. isl (fst y) \<or> extends m (snd y)", OF _ assms],
    goal_cases)
  case (1 cubeLoop' depth delta cPos cubePoints m y)
  show ?case
  proof (cases "atS cubePoints 0 m")
    case (Pair r m1)
    show ?thesis
    proof (cases r)
      case (Inl e)
      then show ?thesis using 1(2) Pair by auto
    next
      case (Inr c0)
      have m1: "m1 = m" using Pair Inr by (auto dest: atS_Inr)
      show ?thesis
      proof (cases "c0 = - 1")
        case True
        then show ?thesis using 1(2) Pair Inr m1 extends_refl [of m] by auto
      next
        case False
        obtain r2 m2 where p: "placeSpin depth delta cPos cubePoints m = (r2, m2)"
          by (cases "placeSpin depth delta cPos cubePoints m")
        show ?thesis
        proof (cases r2)
          case (Inl e)
          then show ?thesis using 1(2) Pair Inr m1 False p by auto
        next
          case r2: (Inr u2)
          have e1: "extends m m2" using placeSpin_extends p r2 by blast
          have "cubeLoop' depth delta cPos (nextPermutation cubePoints 2) m2 = Some y"
            using 1(2) Pair Inr m1 False p r2 by simp
          then have "isl (fst y) \<or> extends m2 (snd y)" by (rule 1(1))
          then show ?thesis using e1 extends_trans by blast
        qed
      qed
    qed
  qed
qed

lemma cubeLoop_extends:
  "cubeLoop depth delta cPos cubePoints m = Some (Inr u, m') \<Longrightarrow> extends m m'"
  using cubeLoop_extends_aux by fastforce

lemma cubeLoop_first:
  assumes "cubeLoop depth delta cPos (replicate (Suc n) 0) m = Some (Inr u, m')"
  shows "extends m m' \<and> nSpins m < nSpins m'"
proof -
  obtain r2 m2 where p: "placeSpin depth delta cPos (replicate (Suc n) 0) m = (r2, m2)"
    by (cases "placeSpin depth delta cPos (replicate (Suc n) 0) m")
  show ?thesis
  proof (cases r2)
    case (Inl e)
    then show ?thesis using assms p
      by (simp add: cubeLoop.simps [of _ _ _ "0 # replicate n 0"] atS_def returnS_def)
  next
    case (Inr u2)
    then have rest: "cubeLoop depth delta cPos (nextPermutation (replicate (Suc n) 0) 2) m2
                 = Some (Inr u, m')"
      using assms p
      by (simp add: cubeLoop.simps [of _ _ _ "0 # replicate n 0"] atS_def returnS_def)
    have e1: "extends m m2" "nSpins m2 = nSpins m + 1"
      using placeSpin_extends p Inr by blast+
    have e2: "extends m2 m'" using rest by (rule cubeLoop_extends)
    show ?thesis
      using extends_trans [OF e1(1) e2] extends_fields(3) [OF e2] e1(2) by simp
  qed
qed

lemma frame_putAtS: "frame (putAtS v i x)"
  by (simp add: putAtS_def frame_returnS frame_throwS)

lemma frame_cellPosition: "frame (cellPosition depth x0 delta vN)"
  unfolding cellPosition_def Let_def by (intro frame_intros frame_putAtS frame_fdiv)

lemma cellPosition_state: "cellPosition depth x0 delta vN m = (r, m') \<Longrightarrow> m' = m"
  using frame_cellPosition [of depth x0 delta vN] by (auto simp: frame_def dest: sndI)

lemma cellLoop_extends_aux:
  assumes "cellLoop depth x0 delta vN m = Some y"
  shows "isl (fst y) \<or> extends m (snd y)"
proof (rule cellLoop.raw_induct
    [where P = "\<lambda>depth x0 delta vN m y. isl (fst y) \<or> extends m (snd y)", OF _ assms],
    goal_cases)
  case (1 cellLoop' depth x0 delta vN m y)
  show ?case
  proof (cases "atS vN 0 m")
    case (Pair r m1)
    show ?thesis
    proof (cases r)
      case (Inl e)
      then show ?thesis using 1(2) Pair by auto
    next
      case (Inr v0)
      have m1: "m1 = m" using Pair Inr by (auto dest: atS_Inr)
      show ?thesis
      proof (cases "v0 = - 1")
        case True
        then show ?thesis using 1(2) Pair Inr m1 extends_refl [of m] by auto
      next
        case False
        obtain r2 m2 where p: "cellPosition depth x0 delta vN m = (r2, m2)"
          by (cases "cellPosition depth x0 delta vN m")
        have m2: "m2 = m" using p by (rule cellPosition_state)
        show ?thesis
        proof (cases r2)
          case (Inl e)
          then show ?thesis using 1(2) Pair Inr m1 False p by auto
        next
          case r2: (Inr cPos)
          from 1(2) Pair Inr m1 False p r2 m2 obtain r3 m3 where
            c: "cubeLoop depth delta cPos (replicate (length (latticeDimensions m)) 0) m
                  = Some (r3, m3)"
            and rest: "(case (r3, m3) of
                      (Inl e, m3) \<Rightarrow> Some (Inl e, m3)
                    | (Inr _, m3) \<Rightarrow>
                        cellLoop' depth x0 delta
                          (nextPermutation vN (double_to_int (hausdorffSlices m3))) m3) = Some y"
            by (auto simp: bind_eq_Some_conv)
          show ?thesis
          proof (cases r3)
            case (Inl e)
            then show ?thesis using rest by auto
          next
            case r3: (Inr u3)
            have e1: "extends m m3" using c r3 by (auto dest: cubeLoop_extends)
            have "cellLoop' depth x0 delta
                    (nextPermutation vN (double_to_int (hausdorffSlices m3))) m3 = Some y"
              using rest r3 by simp
            then have "isl (fst y) \<or> extends m3 (snd y)" by (rule 1(1))
            then show ?thesis using e1 extends_trans by blast
          qed
        qed
      qed
    qed
  qed
qed

lemma cellLoop_first:
  assumes "cellLoop depth x0 delta vN m = Some (Inr u, m')"
    and "latticeDimensions m \<noteq> []" and vN: "vN = replicate k 0"
  shows "extends m m' \<and> nSpins m < nSpins m'"
proof -
  obtain n where n: "length (latticeDimensions m) = Suc n"
    using assms(2) by (cases "latticeDimensions m") auto
  have ext: "extends m m'" using cellLoop_extends_aux [OF assms(1)] by simp
  obtain r m1 where a: "atS vN 0 m = (r, m1)" by (cases "atS vN 0 m")
  show ?thesis
  proof (cases r)
    case (Inl e)
    then show ?thesis using assms(1) a by (simp add: cellLoop.simps [of _ _ _ vN])
  next
    case (Inr v0)
    have m1: "m1 = m" using a Inr by (auto dest: atS_Inr)
    show ?thesis
    proof (cases "v0 = - 1")
      case True
      then show ?thesis using a Inr vN
        by (auto simp: atS_def returnS_def throwS_def split: if_splits)
    next
      case False
      obtain r2 m2 where p: "cellPosition depth x0 delta vN m = (r2, m2)"
        by (cases "cellPosition depth x0 delta vN m")
      have m2: "m2 = m" using p by (rule cellPosition_state)
      show ?thesis
      proof (cases r2)
        case (Inl e)
        then show ?thesis using assms(1) a Inr m1 False p
          by (simp add: cellLoop.simps [of _ _ _ vN])
      next
        case r2: (Inr cPos)
        from assms(1) a Inr m1 False p r2 m2 obtain r3 m3 where
          c: "cubeLoop depth delta cPos (replicate (Suc n) 0) m = Some (r3, m3)"
          and rest: "(case (r3, m3) of
                      (Inl e, m3) \<Rightarrow> Some (Inl e, m3)
                    | (Inr _, m3) \<Rightarrow>
                        cellLoop depth x0 delta
                          (nextPermutation vN (double_to_int (hausdorffSlices m3))) m3)
                    = Some (Inr u, m')"
          by (auto simp: cellLoop.simps [of _ _ _ vN] bind_eq_Some_conv n)
        show ?thesis
        proof (cases r3)
          case (Inl e)
          then show ?thesis using rest by auto
        next
          case r3: (Inr u3)
          have e1: "nSpins m < nSpins m3"
            using cubeLoop_first [of depth delta cPos n m u3 m3] c r3 by simp
          have "cellLoop depth x0 delta
                  (nextPermutation vN (double_to_int (hausdorffSlices m3))) m3 = Some (Inr u, m')"
            using rest r3 by simp
          then have "extends m3 m'" using cellLoop_extends_aux by fastforce
          then show ?thesis using e1 ext extends_fields(3) by fastforce
        qed
      qed
    qed
  qed
qed

lemma swap_set:
  assumes "0 \<le> a" "a < int (length v)" "0 \<le> b" "b < int (length v)"
  shows "length (swap v a b) = length v \<and> set (swap v a b) \<subseteq> set v"
proof -
  have a: "v ! nat a \<in> set v" and b: "v ! nat b \<in> set v"
    using assms by simp_all
  have "set (v[nat a := v ! nat b]) \<subseteq> set v"
    using set_update_subset_insert [of v "nat a" "v ! nat b"] b by auto
  then have "set ((v[nat a := v ! nat b])[nat b := v ! nat a]) \<subseteq> set v"
    using set_update_subset_insert [of "v[nat a := v ! nat b]" "nat b" "v ! nat a"] a by auto
  then show ?thesis by (simp add: swap_def)
qed

lemma partition_fold:
  fixes f :: "int \<Rightarrow> spin list \<times> int \<Rightarrow> spin list \<times> int" and pivot :: spin
  defines "f \<equiv> (\<lambda>j (v, i). if \<not> spinGreater (v ! nat j) pivot then (swap v (i + 1) j, i + 1)
                             else (v, i))"
  assumes low: "0 \<le> low"
  shows "low - 1 \<le> h \<Longrightarrow> h < int (length vec) \<Longrightarrow> fold f [low..h] (vec, low - 1) = (v, i) \<Longrightarrow>
           length v = length vec \<and> set v \<subseteq> set vec \<and> low - 1 \<le> i \<and> i \<le> h"
proof (induction "nat (h - low + 1)" arbitrary: h v i)
  case 0
  then have "[low..h] = []" by simp
  then show ?case using 0 by simp
next
  case (Suc k)
  then have h: "low \<le> h" by simp
  obtain v0 i0 where s0: "fold f [low..h - 1] (vec, low - 1) = (v0, i0)"
    by (cases "fold f [low..h - 1] (vec, low - 1)")
  have ih: "length v0 = length vec \<and> set v0 \<subseteq> set vec \<and> low - 1 \<le> i0 \<and> i0 \<le> h - 1"
    using Suc.hyps(1) [of "h - 1" v0 i0] Suc.hyps(2) Suc.prems(2) h s0 by simp
  have step: "f h (v0, i0) = (v, i)"
    using Suc.prems(3) s0 by (simp add: upto_rec2 [OF h])
  show ?case
  proof (cases "spinGreater (v0 ! nat h) pivot")
    case True
    then show ?thesis using step ih by (auto simp: f_def)
  next
    case False
    then have vi: "v = swap v0 (i0 + 1) h" "i = i0 + 1"
      using step by (auto simp: f_def)
    have "length (swap v0 (i0 + 1) h) = length v0 \<and> set (swap v0 (i0 + 1) h) \<subseteq> set v0"
      using ih low h Suc.prems(2) by (intro swap_set) simp_all
    then show ?thesis using vi ih by auto
  qed
qed

lemma QSPartition_range:
  assumes "0 \<le> low" "low \<le> high" "high < int (length vec)"
    and "QSPartition vec low high = (vec1, p)"
  shows "length vec1 = length vec \<and> set vec1 \<subseteq> set vec \<and> low \<le> p \<and> p \<le> high"
proof -
  let ?f = "\<lambda>j (v, i). if \<not> spinGreater (v ! nat j) (vec ! nat high)
                          then (swap v (i + 1) j, i + 1) else (v, i)"
  obtain v i where s: "fold ?f [low..high - 1] (vec, low - 1) = (v, i)"
    by (cases "fold ?f [low..high - 1] (vec, low - 1)")
  have inv: "length v = length vec \<and> set v \<subseteq> set vec \<and> low - 1 \<le> i \<and> i \<le> high - 1"
    using partition_fold [OF assms(1), of "high - 1" vec "vec ! nat high" v i] assms(2,3) s
    by simp
  have res: "vec1 = swap v (i + 1) high" "p = i + 1"
    using assms(4) s by (auto simp add: QSPartition_def Let_def)
  have "length (swap v (i + 1) high) = length v \<and> set (swap v (i + 1) high) \<subseteq> set v"
    using inv assms by (intro swap_set) simp_all
  then show ?thesis using res inv by auto
qed

lemma QuickSort_range:
  assumes "QuickSort vec left right = Some vec'"
  shows "0 \<le> left \<longrightarrow> right < int (length vec) \<longrightarrow>
           length vec' = length vec \<and> set vec' \<subseteq> set vec"
proof (rule QuickSort.raw_induct
    [where P = "\<lambda>vec left right vec'. 0 \<le> left \<longrightarrow> right < int (length vec) \<longrightarrow>
           length vec' = length vec \<and> set vec' \<subseteq> set vec", OF _ assms],
    goal_cases)
  case (1 QuickSort' vec left right vec')
  show ?case
  proof (intro impI)
    assume l: "0 \<le> left" and r: "right < int (length vec)"
    show "length vec' = length vec \<and> set vec' \<subseteq> set vec"
    proof (cases "left < right")
      case False
      then show ?thesis using 1(2) by simp
    next
      case True
      obtain vec1 p where q: "QSPartition vec left right = (vec1, p)"
        by (cases "QSPartition vec left right")
      have q1: "length vec1 = length vec \<and> set vec1 \<subseteq> set vec \<and> left \<le> p \<and> p \<le> right"
        using QSPartition_range [OF l _ r q] True by simp
      show ?thesis
      proof (cases "p - left < right - p")
        case c: True
        from 1(2) True q c obtain vec2 where
          a: "QuickSort' vec1 left (p - 1) = Some vec2" and b: "QuickSort' vec2 (p + 1) right = Some vec'"
          by (auto simp: bind_eq_Some_conv)
        have a': "length vec2 = length vec1 \<and> set vec2 \<subseteq> set vec1"
          using 1(1) [OF a] l r q1 by simp
        have "length vec' = length vec2 \<and> set vec' \<subseteq> set vec2"
          using 1(1) [OF b] l r q1 a' by simp
        then show ?thesis using a' q1 by auto
      next
        case c: False
        from 1(2) True q c obtain vec2 where
          a: "QuickSort' vec1 (p + 1) right = Some vec2" and b: "QuickSort' vec2 left (p - 1) = Some vec'"
          by (auto simp: bind_eq_Some_conv)
        have a': "length vec2 = length vec1 \<and> set vec2 \<subseteq> set vec1"
          using 1(1) [OF a] l r q1 by simp
        have "length vec' = length vec2 \<and> set vec' \<subseteq> set vec2"
          using 1(1) [OF b] l r q1 a' by simp
        then show ?thesis using a' q1 by auto
      qed
    qed
  qed
qed

lemma addSpins_built:
  assumes run: "addSpins depth x0 x1 m = Some (Inr u, m')"
    and dims: "latticeDimensions m \<noteq> []"
    and n: "nSpins m = int (length (spinArray m))"
    and sp: "list_all (\<lambda>s. length (coords s) = length (latticeDimensions m) \<and> active s) (spinArray m)"
  shows "nSpins m' = int (length (spinArray m')) \<and>
         list_all (\<lambda>s. length (coords s) = length (latticeDimensions m) \<and> active s) (spinArray m') \<and>
         latticeDimensions m' = latticeDimensions m \<and> nSpins m < nSpins m' \<and> 0 \<le> depth"
proof -
  obtain r1 m1 where d: "bindS (atS x1 0) (\<lambda>b. bindS (atS x0 0) (\<lambda>a. returnS \<bar>b - a\<bar>)) m = (r1, m1)"
    by (cases "bindS (atS x1 0) (\<lambda>b. bindS (atS x0 0) (\<lambda>a. returnS \<bar>b - a\<bar>)) m")
  have m1: "m1 = m"
    using d by (auto simp: bindS_def atS_def returnS_def throwS_def split: if_splits)
  from run d m1 obtain delta where r1: "r1 = Inr delta"
    by (cases r1) (auto simp: addSpins_def)
  have nonneg: "\<not> int (length (latticeDimensions m)) * depth < 0"
    using run d m1 r1 by (auto simp: addSpins_def split: if_splits)
  then have depth: "0 \<le> depth"
    using dims by (simp add: mult_less_0_iff not_less)
  from run d m1 r1 nonneg obtain r2 m2 where
    c: "cellLoop depth x0 delta
          (replicate (nat (int (length (latticeDimensions m)) * depth)) 0) m = Some (r2, m2)"
    and rest: "(case (r2, m2) of
                 (Inl e, m2) \<Rightarrow> Some (Inl e, m2)
               | (Inr _, m2) \<Rightarrow>
                   Option.bind (QuickSort (spinArray m2) 0 (nSpins m2 - 1))
                     (\<lambda>vec. Some (Inr (), m2\<lparr>spinArray := vec\<rparr>))) = Some (Inr u, m')"
    by (auto simp: addSpins_def bind_eq_Some_conv)
  from rest obtain u2 where r2: "r2 = Inr u2" by (cases r2) auto
  from rest r2 obtain vec where
    q: "QuickSort (spinArray m2) 0 (nSpins m2 - 1) = Some vec" and m': "m' = m2\<lparr>spinArray := vec\<rparr>"
    by (auto simp: bind_eq_Some_conv)
  have ext: "extends m m2" "nSpins m < nSpins m2"
    using cellLoop_first [OF c [unfolded r2] dims refl] by simp_all
  obtain new where new: "m2 = m\<lparr>spinArray := spinArray m @ new, nSpins := nSpins m + int (length new)\<rparr>"
    "list_all (\<lambda>s. length (coords s) = length (latticeDimensions m) \<and> active s) new"
    using ext(1) by (auto simp: extends_def)
  have n2: "nSpins m2 = int (length (spinArray m2))" using new(1) n by simp
  have sp2: "list_all (\<lambda>s. length (coords s) = length (latticeDimensions m) \<and> active s) (spinArray m2)"
    using new sp by simp
  have "length vec = length (spinArray m2) \<and> set vec \<subseteq> set (spinArray m2)"
    using QuickSort_range [OF q] n2 by simp
  then show ?thesis
    using m' n2 sp2 new(1) ext(2) depth by (auto simp: list_all_iff)
qed

lemma setupModel_wf:
  assumes fresh: "spinArray m = []" "nSpins m = 0" "latticeDimensions m = []"
    and par: "0 < hausdorffDim m" "1 \<le> hausdorffSlices m"
    and run: "setupModel m = Some (Inr u, m')"
  shows "wf_model m' \<and> list_all active (spinArray m') \<and> 0 < nSpins m' \<and> hasBeenSetup m'"
proof -
  define m1 where "m1 = (if hausdorffMethod m = ''SCALING''
                then m\<lparr>hausdorffScale :=
                         std_exp (- of_int \<lceil>hausdorffDim m\<rceil> * ln (hausdorffSlices m)
                                  / hausdorffDim m)\<rparr>
                else m)"
  define m2 where "m2 = m1\<lparr>latticeDimensions :=
                      latticeDimensions m1 @
                      replicate (nat \<lceil>hausdorffDim m1\<rceil>)
                        (double_to_int (2 * hausdorffSlices m1 powi latticeDepth m1))\<rparr>"
  have f1: "spinArray m2 = []" "nSpins m2 = 0" "hausdorffDim m2 = hausdorffDim m"
    "hausdorffSlices m2 = hausdorffSlices m" "latticeDepth m2 = latticeDepth m"
    "latticeDimensions m2 = replicate (nat \<lceil>hausdorffDim m\<rceil>)
                        (double_to_int (2 * hausdorffSlices m powi latticeDepth m))"
    using fresh by (simp_all add: m1_def m2_def)
  have D: "0 < nat \<lceil>hausdorffDim m\<rceil>" using par(1) by simp
  then have dims: "latticeDimensions m2 \<noteq> []" using f1(6) by auto
  from run obtain r3 m3 where
    a: "addSpins (latticeDepth m2) (replicate (length (latticeDimensions m2)) 0)
          (replicate (length (latticeDimensions m2)) 1) m2 = Some (r3, m3)"
    and rest: "(case (r3, m3) of
                (Inl e, m3) \<Rightarrow> Some (Inl e, m3)
              | (Inr _, m3) \<Rightarrow> Some (Inr (), m3\<lparr>hasBeenSetup := True\<rparr>)) = Some (Inr u, m')"
    unfolding setupModel_def Let_def m1_def [symmetric] m2_def [symmetric]
    by (auto simp: bind_eq_Some_conv split: if_splits)
  from rest obtain u3 where r3: "r3 = Inr u3" by (cases r3) auto
  have m': "m' = m3\<lparr>hasBeenSetup := True\<rparr>" using rest r3 by simp
  have b: "nSpins m3 = int (length (spinArray m3)) \<and>
         list_all (\<lambda>s. length (coords s) = length (latticeDimensions m2) \<and> active s) (spinArray m3) \<and>
         latticeDimensions m3 = latticeDimensions m2 \<and> nSpins m2 < nSpins m3 \<and> 0 \<le> latticeDepth m2"
    using addSpins_built [OF a [unfolded r3] dims] f1(1,2) by force
  have "1 \<le> hausdorffSlices m powi latticeDepth m"
    using b par(2) f1(5) by (simp add: power_int_def one_le_power)
  then have "0 < double_to_int (2 * hausdorffSlices m powi latticeDepth m)"
    by (simp add: double_to_int_def)
  then have pos: "list_all (\<lambda>d. 0 < d) (latticeDimensions m2)"
    using f1(6) by (simp add: list_all_iff)
  show ?thesis
    using b pos m' f1(2) by (auto simp: wf_model_def list_all_iff)
qed

text \<open>The partition function of an object that \<open>setup()\<close> has just built.\<close>

lemma computePartitionFunction_after_setup:
  assumes "spinArray m = []" "nSpins m = 0" "latticeDimensions m = []"
    and "0 < hausdorffDim m" "1 \<le> hausdorffSlices m"
    and "setupModel m = Some (Inr u, m')" and "finite_couplings m'"
  shows "computePartitionFunction 0 [] m' =
           (Inr (\<Sum>F \<in> Pow {0 ..< nSpins m'}. exp (effectiveHamiltonian m' F)), m')"
  using computePartitionFunction_rec [of m' 0 "[]"] setupModel_wf [OF assms(1-6)] assms(7)
  by simp

subsection \<open>A second set-up without a reset\<close>




lemma twiceSetUp_not_wf: "\<not> wf_model twiceSetUp"
  by (simp add: wf_model_def twiceSetUp_def)

subsection \<open>The groups drawn by sampling\<close>

text \<open>
  A group that \<open>drawGroup\<close> draws by sampling starts with \<open>nSpinsPerThread\<close> zeros,
  whatever the generator gives.
\<close>

lemma drawGroup_zero_prefix:
  assumes "drawGroup k popVector popVectorSize rNG m = (Inr (grp, pv', pvs', rNG'), m')"
    and "0 \<le> k" and "k \<le> int (length popVector)"
  shows "take (nat k) grp = replicate (nat k) 0 \<and> m' = m"
proof -
  let ?P = "\<lambda>(sf :: int list, pv :: int list, pvs :: int, r :: TRandom3).
              take (nat k) sf = replicate (nat k) 0 \<and> nat k \<le> length sf"
  let ?body = "\<lambda>(j :: int) (spinFlips, popVector, popVectorSize, rNG).
               let (index, rNG') = Integer popVectorSize rNG in
               bindS (atS popVector index) (\<lambda>v.
                 returnS (spinFlips @ [v], erase popVector index, popVectorSize - 1, rNG'))"
  have run: "forS [0 .. k - 1] ?body (replicate (nat k) 0, popVector, popVectorSize, rNG) m
               = (Inr (grp, pv', pvs', rNG'), m')"
    using assms by (simp add: drawGroup_def Let_def)
  have "?P (grp, pv', pvs', rNG') \<and> m' = m"
  proof (rule forS_invariant [where P = ?P, OF _ _ run])
    show "?P (replicate (nat k) 0, popVector, popVectorSize, rNG)" by simp
  next
    fix i a m r m'
    assume "?P a" "?body i a m = (Inr r, m')"
    then show "?P r \<and> m' = m"
      by (auto simp: Let_def returnS_def split: prod.splits dest!: bindS_Inr atS_Inr)
  qed
  then show ?thesis by simp
qed

subsection \<open>One Hybrid step on the four spins\<close>

lemma setup_fourSpinsFree:
  "setupModel (setNumMCSteps 1 (setCouplingConsts 0 0 (newIsingModel ''HYBRID'' 0 1)))
     = Some (Inr (), fourSpinsFree)"
  by (simp add: setupModel_def newIsingModel_def Let_def std_exp_minus_ln2 fdiv_def std_isinf_def DBL_MAX_def double_to_int_def
      addSpins_def cellLoop.simps cubeLoop.simps bindS_def atS_def returnS_def throwS_def
      nextPermutation_def nextPermutationFrom.simps getS_def cellPosition_def placeSpin_def
      upto_small putAtS_def modifyS_def QuickSort.simps QSPartition_def swap_def
      spinGreater_def upto.simps fourSpinsFree_def setNumMCSteps_def setCouplingConsts_def)

lemma afterHybrid_fields:
  "hasBeenSetup (afterHybrid ss info)" "nThreads (afterHybrid ss info) = 1"
  "nMCSteps (afterHybrid ss info) = 1" "nSpins (afterHybrid ss info) = 4"
  "mcInfo (afterHybrid ss info) = info" "mcMethod (afterHybrid ss info) = ''HYBRID''"
  "magnetization (afterHybrid ss info) = 0"
  "(afterHybrid ss info)\<lparr>currentEffH := 0\<rparr> = afterHybrid ss info"
  "(afterHybrid ss info)\<lparr>mcInfo := info'\<rparr> = afterHybrid ss info'"
  by (simp_all add: afterHybrid_def fourSpinsFree_def newIsingModel_def)

lemma fourSpinsFree_afterHybrid: "fourSpinsFree = afterHybrid [1, 1, 1, 1] []"
  by (simp add: afterHybrid_def fourSpinsFree_def newIsingModel_def)

lemma afterHybrid_energy:
  "getEffHamiltonian flips (afterHybrid ss info) = (Inr 0, afterHybrid ss info)"
  by (simp add: prog_defs afterHybrid_def fourSpinsFree_def newIsingModel_def upto_small Let_def)

lemma afterHybrid_bind_energy:
  "bindS (getEffHamiltonian flips) g (afterHybrid ss info) = g 0 (afterHybrid ss info)"
  by (simp add: bindS_def afterHybrid_energy)

lemma drawGroup_first:
  "drawGroup 2 [0, 1, 2, 3] 4 (\<lambda>n. 1 / 4) m = (Inr ([0, 0, 1, 0], [2, 3], 2, \<lambda>n. 1 / 4), m)"
  by (simp add: drawGroup_def Integer_def erase_def bindS_def atS_def returnS_def upto_small
      Let_def eval_nat_numeral)

lemma drawGroup_second:
  "drawGroup 2 [2, 3] 2 (\<lambda>n. 1 / 4) m = (Inr ([0, 0, 2, 3], [], 0, \<lambda>n. 1 / 4), m)"
  by (simp add: drawGroup_def Integer_def erase_def bindS_def atS_def returnS_def upto_small
      Let_def eval_nat_numeral)

lemma hybridStep_first:
  "hybridStep (1 / 4) [0, 0, 1, 0] (afterHybrid [1, 1, 1, 1] [])
     = (Inr (), afterHybrid [- 1, - 1, 1, 1] [0])"
  by (simp add: hybridStep_def afterHybrid_bind_energy bindS_getS std_exp_zero)
    (simp add: afterHybrid_def fourSpinsFree_def newIsingModel_def flipSpin_def recordFlip_def
      bindS_def getS_def atS_def returnS_def modifyS_def upto_small std_exp_zero)

lemma hybridStep_second:
  "hybridStep (1 / 4) [0, 0, 2, 3] (afterHybrid [- 1, - 1, 1, 1] [0])
     = (Inr (), afterHybrid [- 1, - 1, - 1, - 1] [0, 0])"
  by (simp add: hybridStep_def afterHybrid_bind_energy bindS_getS std_exp_zero)
    (simp add: afterHybrid_def fourSpinsFree_def newIsingModel_def flipSpin_def recordFlip_def
      bindS_def getS_def atS_def returnS_def modifyS_def upto_small std_exp_zero)

lemma hybridLoop_fourSpins:
  "hybridLoop 2 [0, 1, 2, 3] 4 (\<lambda>n. 1 / 4) [] (afterHybrid [1, 1, 1, 1] [])
     = Some (Inr (\<lambda>n. 1 / 4, [[0, 0, 1, 0], [0, 0, 2, 3]]),
             afterHybrid [- 1, - 1, - 1, - 1] [0, 0])"
  by (simp add: hybridLoop.simps drawGroup_first drawGroup_second hybridStep_first
      hybridStep_second Uniform_def)

section \<open>The claims\<close>

subsection \<open>The partition function\<close>




subsection \<open>The energy evaluation is a pure read\<close>

text \<open>
  Claim C7. For every flip list (the empty one and the single index of the overload
  included), the evaluation of the effective Hamiltonian returns the object it was
  called on: spin array, cached energy, magnetization and every parameter are what
  they were. It holds too when the evaluation ends by an exception, and for
  \<open>getDistanceSq\<close>.
\<close>

theorem C7_getEffHamiltonian_frame:
  "snd (getEffHamiltonian flips m) = m \<and>
   snd (getEffHamiltonian [] m) = m \<and>
   snd (getEffHamiltonian1 flip m) = m \<and>
   snd (getDistanceSq s1 s2 m) = m"
  using frame_getDistanceSq [of s1 s2]
  by (simp add: getEffHamiltonian_state getEffHamiltonian1_state frame_def)

theorem C7_getEffHamiltonian_frame_witness:
  "getEffHamiltonian [] twoSpins = (Inr (- 1), twoSpins) \<and>
   getEffHamiltonian1 0 twoSpins = (Inr 1, twoSpins) \<and>
   snd (getEffHamiltonian [0, 1] twoSpins) = twoSpins"
proof -
  have "fst (getEffHamiltonian [] twoSpins) = Inr (- 1)"
    "fst (getEffHamiltonian1 0 twoSpins) = Inr 1"
    by (simp_all add: prog_defs twoSpins_def newIsingModel_def upto_small Let_def)
  then show ?thesis
    using C7_getEffHamiltonian_frame [of "[0, 1]" twoSpins 0]
    by (simp add: prod_eq_iff)
qed

subsection \<open>Use before set-up\<close>

text \<open>
  Claim C2, as stated: \<open>runMonteCarlo()\<close> and \<open>computePartitionFunction()\<close> both end
  the process when the set-up flag is false. The second does not: on a new object,
  whose flag is false, it returns 0.
\<close>

theorem C2_counterexample:
  "\<not> hasBeenSetup (newIsingModel ''METROPOLIS'' 0 1) \<and>
   computePartitionFunction 0 [] (newIsingModel ''METROPOLIS'' 0 1)
     = (Inr 0, newIsingModel ''METROPOLIS'' 0 1)"
  by (simp add: computePartitionFunction.simps newIsingModel_def)

text \<open>
  Claim C2, amended: \<open>runMonteCarlo()\<close> ends the process, after its message and
  without touching the object, whenever the set-up flag is false.
  \<open>computePartitionFunction()\<close> has no such check: its outcome is the same whatever
  the flag is, and it leaves the flag as it was.
\<close>

theorem C2_use_before_setup:
  "(\<not> hasBeenSetup m \<longrightarrow>
      runMonteCarlo rNG m = Some (Inl (ExitFailure ''ERROR: Object has not been setup!''), m)) \<and>
   computePartitionFunction start flips (m\<lparr>hasBeenSetup := b\<rparr>) =
     (fst (computePartitionFunction start flips m), m\<lparr>hasBeenSetup := b\<rparr>)"
  using computePartitionFunction_frame_flag [of start flips m b]
  by (simp add: runMonteCarlo_def)

theorem C2_use_before_setup_witness:
  "\<not> hasBeenSetup (setTemperature 2 twoSpins) \<and>
   runMonteCarlo (\<lambda>n. 1 / 2) (setTemperature 2 twoSpins)
     = Some (Inl (ExitFailure ''ERROR: Object has not been setup!''), setTemperature 2 twoSpins) \<and>
   computePartitionFunction 0 [] (twoSpins\<lparr>hasBeenSetup := False\<rparr>)
     = (Inr (2 * exp 1 + 2 * exp (- 1)), twoSpins\<lparr>hasBeenSetup := False\<rparr>)"
proof -
  have f: "\<not> hasBeenSetup (setTemperature 2 twoSpins)"
    by (simp add: setTemperature_def)
  have z2: "computePartitionFunction 0 [] twoSpins = (Inr (2 * exp 1 + 2 * exp (- 1)), twoSpins)"
    by (simp add: computePartitionFunction.simps prog_defs twoSpins_def newIsingModel_def
        upto_small Let_def)
  show ?thesis
    using f C2_use_before_setup [of "setTemperature 2 twoSpins" "\<lambda>n. 1 / 2" 0 "[]" False]
      C2_use_before_setup [of twoSpins "\<lambda>n. 1 / 2" 0 "[]" False] z2
    by simp
qed

subsection \<open>The groups of a Hybrid step\<close>

text \<open>
  Claim C3: within one Hybrid step the groups given to \<open>hybridStep\<close> are pairwise
  disjoint and no index is twice in a group. The code does otherwise. \<open>spinFlips\<close> is
  constructed with \<open>nSpinsPerThread\<close> elements, all 0, and the indices drawn from the
  pool are appended to them. Here is the one step of a run on the four spins that
  \<open>setup()\<close> builds, with one thread: the group size 4 is halved to 2, and the groups
  are \<open>[0, 0, 1, 0]\<close> and \<open>[0, 0, 2, 3]\<close>. The index 0 is in both, and three times in
  the first.
\<close>

theorem C3_hybrid_groups_overlap:
  "setupModel (setNumMCSteps 1 (setCouplingConsts 0 0 (newIsingModel ''HYBRID'' 0 1)))
     = Some (Inr (), fourSpinsFree) \<and>
   map_option (\<lambda>(r, m). map_sum id snd r) (runMonteCarlo (\<lambda>n. 1 / 4) fourSpinsFree)
     = Some (Inr [[[0, 0, 1, 0], [0, 0, 2, 3]]])"
  by (simp add: setup_fourSpinsFree fourSpinsFree_afterHybrid runMonteCarlo_def
      afterHybrid_energy afterHybrid_fields mcStep_def adaptSpinsPerThread_def cdiv_def
      upto_small hybridLoop_fourSpins Let_def)

subsection \<open>Acceptance of a flip that lowers the energy\<close>

text \<open>
  Claim C4, as stated: in the Metropolis and in the Heat Bath sweep a candidate energy
  \<open>tE\<close> below the cached energy is accepted whatever the random number is. The Heat
  Bath sweep does otherwise. On the four spins that \<open>setup()\<close> builds, with \<open>H = -1/2\<close>
  and \<open>J = 0\<close>, \<open>runMonteCarlo()\<close> caches the energy 2; the candidate energy of the
  first spin is 1, and with the random number \<open>9/10\<close> the flip is rejected (the
  acceptance ratio is about 0.88).
\<close>

theorem C4_counterexample:
  "setupModel (setCouplingConsts (- 1 / 2) 0 (newIsingModel ''HEATBATH'' 0 1))
     = Some (Inr (), fourSpinsField\<lparr>currentEffH := 0\<rparr>) \<and>
   getEffHamiltonian [] (fourSpinsField\<lparr>currentEffH := 0\<rparr>)
     = (Inr 2, fourSpinsField\<lparr>currentEffH := 0\<rparr>) \<and>
   currentEffH fourSpinsField = 2 \<and>
   fst (getEffHamiltonian1 0 fourSpinsField) = Inr 1 \<and>
   heatBathSpin 0 (\<lambda>n. 9 / 10) fourSpinsField = (Inr (\<lambda>n. 9 / 10), fourSpinsField)"
proof -
  have e: "fst (getEffHamiltonian1 0 fourSpinsField) = Inr 1"
    by (simp add: fourSpinsField_energy)
  have c: "currentEffH fourSpinsField = 2"
    by (simp add: fourSpinsField_def)
  have "heatBathSpin 0 (\<lambda>n. 9 / 10) fourSpinsField = (Inr (\<lambda>n. 9 / 10), fourSpinsField)"
    using heatBath_reject_gap1 [OF e, of "\<lambda>n. 9 / 10"]
    by (simp add: c fourSpinsField_def)
  then show ?thesis using e c setup_fourSpinsField fourSpinsField_energy(1) by simp
qed

text \<open>
  Claim C4, amended. Let the evaluation for the spin \<open>i\<close> return \<open>tE\<close>, below the
  cached energy. The Metropolis sweep then flips the spin without asking the
  generator. The Heat Bath sweep flips it whenever the next number of the generator is
  below \<open>1/2\<close>, but not whatever that number is: when the cached energy is above
  \<open>tE\<close> by 1 at most, the sweep draws the number, and a number of \<open>9/10\<close> or more
  leaves the spin as it is. (The ratio the number is compared with is at least \<open>1/2\<close>,
  and below \<open>0.89\<close> for such a difference; both statements keep clear of it by more
  than the rounding of the doubles.)
\<close>

theorem C4_acceptance_below_current:
  assumes "fst (getEffHamiltonian1 i m) = Inr tE" and "tE < currentEffH m"
    and "0 \<le> i" and "i < int (length (spinArray m))"
  shows "metropolisSpin i rNG m = (Inr rNG, flippedAt i tE m) \<and>
    (rNG 0 < 1 / 2 \<longrightarrow> snd (heatBathSpin i rNG m) = flippedAt i tE m) \<and>
    (currentEffH m - tE \<le> 1 \<and> 9 / 10 \<le> rNG 0 \<longrightarrow>
       heatBathSpin i rNG m = (Inr (\<lambda>n. rNG (Suc n)), m))"
  using metropolis_lower [OF assms] heatBath_accept_half [OF assms]
    heatBath_reject_gap1 [OF assms]
  by simp

theorem C4_acceptance_below_current_witness:
  "fst (getEffHamiltonian1 0 fourSpinsField) = Inr 1 \<and>
   1 < currentEffH fourSpinsField \<and> currentEffH fourSpinsField - 1 \<le> 1 \<and>
   metropolisSpin 0 (\<lambda>n. 9 / 10) fourSpinsField
     = (Inr (\<lambda>n. 9 / 10), flippedAt 0 1 fourSpinsField) \<and>
   S (spinArray (flippedAt 0 1 fourSpinsField) ! 0) = - 1 \<and>
   snd (heatBathSpin 0 (\<lambda>n. 1 / 4) fourSpinsField) = flippedAt 0 1 fourSpinsField \<and>
   heatBathSpin 0 (\<lambda>n. 9 / 10) fourSpinsField = (Inr (\<lambda>n. 9 / 10), fourSpinsField)"
proof -
  have e: "fst (getEffHamiltonian1 0 fourSpinsField) = Inr 1"
    by (simp add: fourSpinsField_energy)
  have c: "currentEffH fourSpinsField = 2"
    by (simp add: fourSpinsField_def)
  have lt: "1 < currentEffH fourSpinsField" by (simp add: c)
  have i: "(0::int) \<le> 0" "0 < int (length (spinArray fourSpinsField))"
    by (simp_all add: fourSpinsField_def)
  note th = C4_acceptance_below_current [OF e lt i]
  have "S (spinArray (flippedAt 0 1 fourSpinsField) ! 0) = - 1"
    by (simp add: flippedAt_def fourSpinsField_def)
  then show ?thesis
    using e lt th [of "\<lambda>n. 9 / 10"] th [of "\<lambda>n. 1 / 4"] by (simp add: c)
qed

subsection \<open>The adaptation of the group size\<close>

text \<open>
  Claim C6, as stated: while the sum of the recorded energy changes decreases from
  step to step, the group size starts at 1 and doubles at every step. The code does
  otherwise: with sums 8, 4, 2 (and no magnetization, four spins) the size goes from
  1 to 2 and back to 1.
\<close>

theorem C6_counterexample:
  "(4::real) < 8 \<and> (2::real) < 4 \<and>
   adaptSpinsPerThread 1 4 8 0 4 = 2 \<and>
   adaptSpinsPerThread 2 2 4 0 4 = 1"
  by (simp add: adaptSpinsPerThread_def cdiv_def)

text \<open>
  Claim C6, amended: at a step where the sum of the recorded energy changes is below
  the one of the step before, a group size above 1 is halved (integer division); a
  group size of 1 or less becomes 2 when the magnitude of the stored magnetization is
  below half the number of spins (integer division), and 1 otherwise.
\<close>

theorem C6_group_size_adaptation:
  assumes "newAvgAbsDeltaE < avgAbsDeltaE"
  shows "adaptSpinsPerThread k newAvgAbsDeltaE avgAbsDeltaE mag n =
           (if 1 < k then k div 2
            else if \<bar>mag\<bar> < cdiv n 2 then 2
            else 1)"
  using assms by (auto simp add: adaptSpinsPerThread_def cdiv_def Let_def sgn_if)

theorem C6_group_size_adaptation_witness:
  "(2::real) < 4 \<and> adaptSpinsPerThread 8 2 4 0 16 = 4 \<and> adaptSpinsPerThread 1 2 4 0 16 = 2
   \<and> adaptSpinsPerThread 1 2 4 9 16 = 1"
  using C6_group_size_adaptation [of 2 4 8 0 16] C6_group_size_adaptation [of 2 4 1 0 16]
    C6_group_size_adaptation [of 2 4 1 9 16]
  by (simp add: cdiv_def)

subsection \<open>The geometry at depth 0\<close>

text \<open>
  Claim C5: at depth 0 the geometry builder makes the \<open>2\<^sup>D\<close> corners of the unit
  hypercube. The code does otherwise: \<open>setup()\<close> at depth 0 ends with
  \<open>std::out_of_range\<close> and the spin array is still empty, here for the dimensions 1
  and 2 (lemma \<open>setupModel_depth0\<close> has it for every object).
\<close>

theorem C5_depth0_no_spins:
  "map_option (\<lambda>(r, m). (r, spinArray m, nSpins m))
     (setupModel (setLatticeDepth 0 (newIsingModel ''METROPOLIS'' 0 1)))
   = Some (Inl OutOfRange, [], 0) \<and>
   map_option (\<lambda>(r, m). (r, spinArray m, nSpins m))
     (setupModel (setHausdorffDimension 2 (setLatticeDepth 0 (newIsingModel ''METROPOLIS'' 0 1))))
   = Some (Inl OutOfRange, [], 0)"
  by (simp add: setupModel_def setLatticeDepth_def setHausdorffDimension_def newIsingModel_def
      Let_def std_exp_minus_ln2 fdiv_def std_isinf_def DBL_MAX_def double_to_int_def addSpins_def cellLoop.simps bindS_def atS_def
      returnS_def throwS_def)

subsection \<open>Settings\<close>

text \<open>
  Claim C8. A non-positive dimension, a negative temperature and a non-positive number
  of Monte Carlo steps are silently ignored: the setter returns the object as it was
  (so the stored parameter keeps its value), and it has no way to fail, its result
  being a plain object.
\<close>

theorem C8_invalid_setting_is_noop:
  "(dimn \<le> 0 \<longrightarrow> setHausdorffDimension dimn m = m) \<and>
   (tkbT < 0 \<longrightarrow> setTemperature tkbT m = m) \<and>
   (num \<le> 0 \<longrightarrow> setNumMCSteps num m = m)"
  by (simp add: setHausdorffDimension_def setTemperature_def setNumMCSteps_def)

theorem C8_invalid_setting_is_noop_witness:
  "(0::real) \<le> 0 \<and> (-1::real) < 0 \<and> (0::int) \<le> 0 \<and>
   setHausdorffDimension 0 (newIsingModel ''HYBRID'' 0 1) = newIsingModel ''HYBRID'' 0 1 \<and>
   hausdorffDim (setHausdorffDimension 0 (newIsingModel ''HYBRID'' 0 1)) = 1 \<and>
   setTemperature (-1) (newIsingModel ''HYBRID'' 0 1) = newIsingModel ''HYBRID'' 0 1 \<and>
   setNumMCSteps 0 (newIsingModel ''HYBRID'' 0 1) = newIsingModel ''HYBRID'' 0 1"
  using C8_invalid_setting_is_noop [of 0 "newIsingModel ''HYBRID'' 0 1" "-1" 0]
  by (simp add: newIsingModel_def)

text \<open>
  Claim C9, as stated: after any setter call, whatever the argument, the set-up flag is
  false. It fails for a rejected argument: the guard returns before the flag is
  cleared, so a model that was set up stays set up.
\<close>

theorem C9_counterexample:
  "hasBeenSetup (setTemperature (-1) ((newIsingModel ''HYBRID'' 0 1)\<lparr>hasBeenSetup := True\<rparr>))"
  by (simp add: setTemperature_def)

text \<open>
  Claim C9, amended: a setter call that stores its argument clears the set-up flag and
  changes nothing else, and a call that stores nothing changes nothing, the flag
  included. The setters without a guard always store; \<open>setNumMCSteps\<close>,
  \<open>setHausdorffDimension\<close> and \<open>setTemperature\<close> store exactly the arguments that pass
  their guard. (\<open>setNumThreads\<close> does the one or the other; which, is claim C10.)
\<close>

theorem C9_setter_flag:
  "(1 \<le> n \<longrightarrow> setNumMCSteps n m = m\<lparr>nMCSteps := n, hasBeenSetup := False\<rparr>) \<and>
   (n < 1 \<longrightarrow> setNumMCSteps n m = m) \<and>
   (0 < d \<longrightarrow> setHausdorffDimension d m = m\<lparr>hausdorffDim := d, hasBeenSetup := False\<rparr>) \<and>
   (d \<le> 0 \<longrightarrow> setHausdorffDimension d m = m) \<and>
   (0 \<le> t \<longrightarrow> setTemperature t m = m\<lparr>kbT := t, hasBeenSetup := False\<rparr>) \<and>
   (t < 0 \<longrightarrow> setTemperature t m = m) \<and>
   (setNumThreads n m = m\<lparr>nThreads := n, hasBeenSetup := False\<rparr> \<or> setNumThreads n m = m) \<and>
   setLatticeDepth n m = m\<lparr>latticeDepth := n, hasBeenSetup := False\<rparr> \<and>
   setInteractionSigma d m = m\<lparr>interactionSigma := d, hasBeenSetup := False\<rparr> \<and>
   setHausdorffMethod s m = m\<lparr>hausdorffMethod := s, hasBeenSetup := False\<rparr> \<and>
   setMCMethod s m = m\<lparr>mcMethod := s, hasBeenSetup := False\<rparr> \<and>
   setCouplingConsts d t m = m\<lparr>H := d, J := t, hasBeenSetup := False\<rparr>"
  by (simp add: setNumThreads_def setNumMCSteps_def setHausdorffDimension_def
      setTemperature_def setLatticeDepth_def setInteractionSigma_def
      setHausdorffMethod_def setMCMethod_def setCouplingConsts_def)

theorem C9_setter_flag_witness:
  "setTemperature 2 ((newIsingModel ''HYBRID'' 0 1)\<lparr>hasBeenSetup := True\<rparr>)
     = (newIsingModel ''HYBRID'' 0 1)\<lparr>kbT := 2\<rparr> \<and>
   kbT (setTemperature 2 ((newIsingModel ''HYBRID'' 0 1)\<lparr>hasBeenSetup := True\<rparr>)) = 2 \<and>
   \<not> hasBeenSetup (setTemperature 2 ((newIsingModel ''HYBRID'' 0 1)\<lparr>hasBeenSetup := True\<rparr>)) \<and>
   nMCSteps (setNumMCSteps 5 ((newIsingModel ''HYBRID'' 0 1)\<lparr>hasBeenSetup := True\<rparr>)) = 5 \<and>
   \<not> hasBeenSetup (setNumMCSteps 5 ((newIsingModel ''HYBRID'' 0 1)\<lparr>hasBeenSetup := True\<rparr>)) \<and>
   hausdorffDim (setHausdorffDimension 2 ((newIsingModel ''HYBRID'' 0 1)\<lparr>hasBeenSetup := True\<rparr>))
     = 2 \<and>
   \<not> hasBeenSetup (setHausdorffDimension 2 ((newIsingModel ''HYBRID'' 0 1)\<lparr>hasBeenSetup := True\<rparr>)) \<and>
   hasBeenSetup (setNumMCSteps 0 ((newIsingModel ''HYBRID'' 0 1)\<lparr>hasBeenSetup := True\<rparr>)) \<and>
   nMCSteps (setNumMCSteps 0 ((newIsingModel ''HYBRID'' 0 1)\<lparr>hasBeenSetup := True\<rparr>)) = 10000 \<and>
   hasBeenSetup (setHausdorffDimension 0 ((newIsingModel ''HYBRID'' 0 1)\<lparr>hasBeenSetup := True\<rparr>)) \<and>
   hasBeenSetup (setTemperature (- 1) ((newIsingModel ''HYBRID'' 0 1)\<lparr>hasBeenSetup := True\<rparr>)) \<and>
   kbT (setTemperature (- 1) ((newIsingModel ''HYBRID'' 0 1)\<lparr>hasBeenSetup := True\<rparr>)) = 1"
  using C9_setter_flag [of 5 "(newIsingModel ''HYBRID'' 0 1)\<lparr>hasBeenSetup := True\<rparr>" 2 2]
    C9_setter_flag [of 0 "(newIsingModel ''HYBRID'' 0 1)\<lparr>hasBeenSetup := True\<rparr>" 0 "- 1"]
  by (simp add: newIsingModel_def)

text \<open>
  Claim C10. The guard of \<open>setNumThreads\<close> reads the stored thread count, not the
  argument: with a stored count of at least 1 every argument is stored (zero and
  negative ones too) and the flag is cleared; with a stored count below 1 the call
  changes nothing, whatever the argument.
\<close>

theorem C10_setNumThreads_guard:
  "(1 \<le> nThreads m \<longrightarrow> setNumThreads n m = m\<lparr>nThreads := n, hasBeenSetup := False\<rparr>) \<and>
   (nThreads m < 1 \<longrightarrow> setNumThreads n m = m)"
  by (simp add: setNumThreads_def)

theorem C10_setNumThreads_guard_witness:
  "1 \<le> nThreads (newIsingModel ''HYBRID'' 0 1) \<and>
   nThreads (setNumThreads (-3) (newIsingModel ''HYBRID'' 0 1)) = -3 \<and>
   nThreads (setNumThreads (-3) (newIsingModel ''HYBRID'' 0 1)) < 1 \<and>
   setNumThreads 8 (setNumThreads (-3) (newIsingModel ''HYBRID'' 0 1))
     = setNumThreads (-3) (newIsingModel ''HYBRID'' 0 1)"
  using C10_setNumThreads_guard [of "newIsingModel ''HYBRID'' 0 1" "-3"]
    C10_setNumThreads_guard [of "setNumThreads (-3) (newIsingModel ''HYBRID'' 0 1)" 8]
  by (simp add: newIsingModel_def)

end
